theory Spec2Isabelle
  imports Main "HOL-Library.Word"
begin

section \<open>The process table of proc.c\<close>

text \<open>
  The kernel is a 32-bit x86 kernel: addresses, sizes and the words of a trap frame are
  32-bit machine words. A pointer to a slot of \<open>ptable.proc\<close> is modelled by the index of
  the slot, a null pointer to a slot by \<open>None\<close>; every other pointer is its address, null
  being 0. The table is the list of its slots, \<open>NPROC\<close> being its length.
\<close>

type_synonym u32 = "32 word"

datatype procstate = UNUSED | EMBRYO | SLEEPING | RUNNABLE | RUNNING | ZOMBIE

text \<open>
  A sleep channel is a \<open>void *\<close>: the code uses the address of a table slot
  (\<open>sleep(curproc, ...)\<close>, \<open>wakeup1(curproc->parent)\<close>, \<open>wakeup1(initproc)\<close>) or the address
  of some other kernel object (\<open>&ticks\<close>).
\<close>

datatype chan = ProcChan nat | AddrChan u32

datatype kentry = NoEntry | Forkret | Trapret

record trapframe =
  eax :: u32
  eip :: u32
  esp :: u32
  tf_regs :: "u32 list"

record proc =
  sz :: u32
  pgdir :: u32
  kstack :: u32
  state :: procstate
  pid :: int
  parent :: "nat option"
  tf :: trapframe
  kret :: kentry
  context_eip :: kentry
  chan :: "chan option"
  killed :: int
  ofile :: "u32 list"
  cwd :: u32
  name :: string
  is_thread :: int
  user_stack :: u32

text \<open>
  Calls into the collaborators that are not part of proc.c (the page allocator, the
  virtual-memory layer, the file system) are recorded in the order they are made.
  \<open>Kalloc a\<close> is a call of \<open>kalloc()\<close> that returned \<open>a\<close> (0 when no page is left),
  \<open>Copyout pd va w\<close> a successful \<open>copyout(pd, va, &w, 4)\<close>. Console output
  (\<open>cprintf\<close>) is not recorded.
\<close>

datatype extcall =
    Kalloc u32
  | Kfree u32
  | Freevm u32
  | Copyout u32 u32 u32
  | Filedup u32
  | Fileclose u32
  | Idup u32
  | Iput u32

text \<open>
  \<open>nextpid\<close> and \<open>pid\<close> are C \<open>int\<close>s of 32 bits: \<open>int32\<close> is the value an \<open>int\<close> holds after
  an arithmetic result \<open>n\<close> is stored in it, so that \<open>nextpid++\<close> at \<open>INT_MAX\<close> leaves
  \<open>INT_MIN\<close>.
\<close>

definition int32 :: "int \<Rightarrow> int" where
  "int32 n = (n + 2 ^ 31) mod 2 ^ 32 - 2 ^ 31"

text \<open>
  The kernel state seen by proc.c: the table, \<open>nextpid\<close>, \<open>initproc\<close>, whether the
  executing kernel path holds \<open>ptable.lock\<close>, the collaborator calls made so far, and a
  record of every assignment to a slot's \<open>state\<close> field together with whether
  \<open>ptable.lock\<close> was held when it was made.
\<close>

record kstate =
  ptable :: "proc list"
  nextpid :: int
  initproc :: "nat option"
  locked :: bool
  calls :: "extcall list"
  state_writes :: "(nat \<times> procstate \<times> bool) list"

definition acquire :: "kstate \<Rightarrow> kstate" where
  "acquire st = st\<lparr>locked := True\<rparr>"

definition release :: "kstate \<Rightarrow> kstate" where
  "release st = st\<lparr>locked := False\<rparr>"

definition upd_proc :: "nat \<Rightarrow> (proc \<Rightarrow> proc) \<Rightarrow> kstate \<Rightarrow> kstate" where
  "upd_proc i f st = st\<lparr>ptable := (ptable st)[i := f (ptable st ! i)]\<rparr>"

text \<open>\<open>p->state = s\<close> for the slot \<open>i\<close>.\<close>

definition set_state :: "nat \<Rightarrow> procstate \<Rightarrow> kstate \<Rightarrow> kstate" where
  "set_state i s st =
     upd_proc i (\<lambda>p. p\<lparr>state := s\<rparr>)
       (st\<lparr>state_writes := state_writes st @ [(i, s, locked st)]\<rparr>)"

definition extern :: "extcall \<Rightarrow> kstate \<Rightarrow> kstate" where
  "extern c st = st\<lparr>calls := calls st @ [c]\<rparr>"


subsection \<open>wakeup1, wakeup\<close>

fun wakeup1_loop :: "chan option \<Rightarrow> nat list \<Rightarrow> kstate \<Rightarrow> kstate" where
  "wakeup1_loop c [] st = st"
| "wakeup1_loop c (i # is) st =
     wakeup1_loop c is
       (if state (ptable st ! i) = SLEEPING \<and> chan (ptable st ! i) = c
        then set_state i RUNNABLE st else st)"

definition wakeup1 :: "chan option \<Rightarrow> kstate \<Rightarrow> kstate" where
  "wakeup1 c st = wakeup1_loop c [0..<length (ptable st)] st"

definition wakeup :: "chan option \<Rightarrow> kstate \<Rightarrow> kstate" where
  "wakeup c st = release (wakeup1 c (acquire st))"

subsection \<open>kill\<close>

fun kill_loop :: "int \<Rightarrow> nat list \<Rightarrow> kstate \<Rightarrow> int \<times> kstate" where
  "kill_loop k [] st = (- 1, release st)"
| "kill_loop k (i # is) st =
     (if pid (ptable st ! i) = k
      then let st1 = upd_proc i (\<lambda>p. p\<lparr>killed := 1\<rparr>) st;
               st2 = (if state (ptable st1 ! i) = SLEEPING
                      then set_state i RUNNABLE st1 else st1)
           in (0, release st2)
      else kill_loop k is st)"

definition kill :: "int \<Rightarrow> kstate \<Rightarrow> int \<times> kstate" where
  "kill k st = kill_loop k [0..<length (ptable st)] (acquire st)"

subsection \<open>allocproc\<close>

fun find_unused :: "nat list \<Rightarrow> proc list \<Rightarrow> nat option" where
  "find_unused [] t = None"
| "find_unused (i # is) t = (if state (t ! i) = UNUSED then Some i else find_unused is t)"

text \<open>
  \<open>ka\<close> is what \<open>kalloc()\<close> returns to this call. The trap frame and the context live
  in the new kernel stack: the frame's words are whatever the page holds (here: what the
  slot held), the word below it is the return address \<open>trapret\<close>, and the zeroed context
  resumes at \<open>forkret\<close>.
\<close>

definition allocproc :: "u32 \<Rightarrow> kstate \<Rightarrow> nat option \<times> kstate" where
  "allocproc ka st0 =
     (let st = acquire st0 in
      case find_unused [0..<length (ptable st)] (ptable st) of
        None \<Rightarrow> (None, release st)
      | Some i \<Rightarrow>
          let st1 = set_state i EMBRYO st;
              st2 = upd_proc i (\<lambda>p. p\<lparr>pid := nextpid st1\<rparr>) (st1\<lparr>nextpid := int32 (nextpid st1 + 1)\<rparr>);
              st3 = upd_proc i (\<lambda>p. p\<lparr>is_thread := 0, user_stack := 0\<rparr>) st2;
              st4 = release st3;
              st5 = upd_proc i (\<lambda>p. p\<lparr>kstack := ka\<rparr>) (extern (Kalloc ka) st4)
          in if ka = 0 then (None, set_state i UNUSED st5)
             else (Some i, upd_proc i (\<lambda>p. p\<lparr>kret := Trapret, context_eip := Forkret\<rparr>) st5))"

subsection \<open>clone, sys_clone\<close>

text \<open>
  \<open>cpok pd va\<close> says whether \<open>copyout\<close> of four bytes to the user address \<open>va\<close> of the
  address space \<open>pd\<close> succeeds; vm.c, which decides it, is not part of these sources.
\<close>

definition copyout :: "(u32 \<Rightarrow> u32 \<Rightarrow> bool) \<Rightarrow> u32 \<Rightarrow> u32 \<Rightarrow> u32 \<Rightarrow> kstate \<Rightarrow> kstate option" where
  "copyout cpok pd va w st = (if cpok pd va then Some (extern (Copyout pd va w) st) else None)"

text \<open>The block clone runs when one of its three \<open>copyout\<close> calls fails.\<close>

definition clone_undo :: "nat \<Rightarrow> kstate \<Rightarrow> int \<times> kstate" where
  "clone_undo np st =
     (let st1 = extern (Kfree (kstack (ptable st ! np))) st;
          st2 = upd_proc np (\<lambda>p. p\<lparr>kstack := 0\<rparr>) st1;
          st3 = set_state np UNUSED st2;
          st4 = upd_proc np (\<lambda>p. p\<lparr>is_thread := 0, user_stack := 0\<rparr>) st3
      in (- 1, st4))"

text \<open>
  \<open>for(i = 0; i < NOFILE; i++) if(curproc->ofile[i]) np->ofile[i] = filedup(curproc->ofile[i])\<close>;
  \<open>filedup\<close> returns the file it is given.
\<close>

fun dup_files :: "nat \<Rightarrow> nat \<Rightarrow> nat list \<Rightarrow> kstate \<Rightarrow> kstate" where
  "dup_files cur np [] st = st"
| "dup_files cur np (i # is) st =
     dup_files cur np is
       (let f = ofile (ptable st ! cur) ! i in
        if f \<noteq> 0
        then upd_proc np (\<lambda>p. p\<lparr>ofile := (ofile p)[i := f]\<rparr>) (extern (Filedup f) st)
        else st)"

text \<open>
  \<open>PGSIZE\<close> (mmu.h) is a parameter. The new slot \<open>np\<close> was \<open>UNUSED\<close> and the caller is
  running, so they are different slots; every field that clone copies from the caller is
  read in the state that \<open>allocproc\<close> returns.
\<close>

definition clone ::
  "u32 \<Rightarrow> u32 \<Rightarrow> (u32 \<Rightarrow> u32 \<Rightarrow> bool) \<Rightarrow> nat \<Rightarrow> u32 \<Rightarrow> u32 \<Rightarrow> u32 \<Rightarrow> u32 \<Rightarrow> kstate \<Rightarrow> int \<times> kstate" where
  "clone PGSIZE ka cpok cur fcn arg1 arg2 stack st0 =
     (case allocproc ka st0 of
        (None, st) \<Rightarrow> (- 1, st)
      | (Some np, st) \<Rightarrow>
          let curproc = ptable st ! cur;
              sta = upd_proc np (\<lambda>p. p\<lparr>pgdir := pgdir curproc, sz := sz curproc\<rparr>) st;
              stb = upd_proc np (\<lambda>p. p\<lparr>parent := Some cur, tf := tf curproc\<rparr>) sta;
              pd = pgdir (ptable stb ! np);
              ustack_ptr0 = stack + PGSIZE;
              ustack_ptr1 = ustack_ptr0 - 4
          in case copyout cpok pd ustack_ptr1 0xffffffff stb of
               None \<Rightarrow> clone_undo np stb
             | Some st1 \<Rightarrow>
                 let ustack_ptr2 = ustack_ptr1 - 4 in
                 case copyout cpok pd ustack_ptr2 arg2 st1 of
                   None \<Rightarrow> clone_undo np st1
                 | Some st2 \<Rightarrow>
                     let ustack_ptr3 = ustack_ptr2 - 4 in
                     case copyout cpok pd ustack_ptr3 arg1 st2 of
                       None \<Rightarrow> clone_undo np st2
                     | Some st3 \<Rightarrow>
                         let st4 = upd_proc np
                                     (\<lambda>p. p\<lparr>tf := (tf p)\<lparr>esp := ustack_ptr3, eip := fcn, eax := 0\<rparr>\<rparr>) st3;
                             st5 = upd_proc np (\<lambda>p. p\<lparr>is_thread := 1, user_stack := stack\<rparr>) st4;
                             st6 = dup_files cur np [0..<length (ofile curproc)] st5;
                             st7 = upd_proc np (\<lambda>p. p\<lparr>cwd := cwd curproc\<rparr>)
                                     (extern (Idup (cwd curproc)) st6);
                             st8 = upd_proc np (\<lambda>p. p\<lparr>name := name curproc\<rparr>) st7;
                             newpid = pid (ptable st8 ! np);
                             st9 = release (set_state np RUNNABLE (acquire st8))
                         in (newpid, st9))"

text \<open>
  \<open>argptr n\<close> is the result of the n-th \<open>argptr\<close> call of the system call: \<open>None\<close> when
  it fails, the fetched user pointer otherwise (syscall.c is not part of these sources).
\<close>

definition sys_clone ::
  "u32 \<Rightarrow> u32 \<Rightarrow> (u32 \<Rightarrow> u32 \<Rightarrow> bool) \<Rightarrow> (nat \<Rightarrow> u32 option) \<Rightarrow> nat \<Rightarrow> kstate \<Rightarrow> int \<times> kstate" where
  "sys_clone PGSIZE ka cpok argptr cur st =
     (case argptr 0 of None \<Rightarrow> (- 1, st) | Some fcn \<Rightarrow>
      case argptr 1 of None \<Rightarrow> (- 1, st) | Some arg1 \<Rightarrow>
      case argptr 2 of None \<Rightarrow> (- 1, st) | Some arg2 \<Rightarrow>
      case argptr 3 of None \<Rightarrow> (- 1, st) | Some stack \<Rightarrow>
        if stack \<ge> sz (ptable st ! cur) \<or> stack + PGSIZE > sz (ptable st ! cur)
           \<or> stack + PGSIZE < stack
        then (- 1, st)
        else clone PGSIZE ka cpok cur fcn arg1 arg2 stack st)"

subsection \<open>sched, sleep and the scheduler's switch\<close>

text \<open>
  A kernel path either returns a value, or hands the processor to the scheduler
  (\<open>swtch\<close> inside \<open>sched\<close>) and is suspended there, or panics.
\<close>

datatype outcome = Returned int kstate | Suspended kstate | Panicked string

text \<open>
  \<open>sched\<close> up to its \<open>swtch\<close>. The checks of \<open>ncli\<close> and of the interrupt flag concern the
  processor, which is not part of the state.
\<close>

definition sched :: "nat \<Rightarrow> kstate \<Rightarrow> outcome" where
  "sched cur st =
     (if \<not> locked st then Panicked ''sched ptable.lock''
      else if state (ptable st ! cur) = RUNNING then Panicked ''sched running''
      else Suspended st)"

text \<open>
  \<open>sleep(chan, lk)\<close> up to the \<open>swtch\<close> of its \<open>sched\<close>; \<open>lk_is_ptable\<close> says that \<open>lk\<close>
  is \<open>&ptable.lock\<close> (another lock is not part of the state). \<open>sleep_wake\<close> is the rest of
  \<open>sleep\<close>, run when the scheduler has switched back.
\<close>

definition sleep :: "nat \<Rightarrow> chan option \<Rightarrow> bool \<Rightarrow> kstate \<Rightarrow> outcome" where
  "sleep cur c lk_is_ptable st =
     (let st1 = (if \<not> lk_is_ptable then acquire st else st);
          st2 = upd_proc cur (\<lambda>p. p\<lparr>chan := c\<rparr>) st1;
          st3 = set_state cur SLEEPING st2
      in sched cur st3)"

definition sleep_wake :: "nat \<Rightarrow> bool \<Rightarrow> kstate \<Rightarrow> kstate" where
  "sleep_wake cur lk_is_ptable st =
     (let st1 = upd_proc cur (\<lambda>p. p\<lparr>chan := None\<rparr>) st
      in if \<not> lk_is_ptable then release st1 else st1)"


text \<open>
  A suspended path resumes when the scheduler switches back to it, which needs its slot to
  be \<open>RUNNABLE\<close>. What the rest of the system does in between is a list of state
  transformers, one for each time the scheduler looks at the slot; the loop
  \<open>for(;;){ body; sleep(curproc, &ptable.lock); }\<close> of wait and join runs \<open>body\<close> once
  and then once more for each resumption. When the list ends with the path asleep, the
  path is still suspended.
\<close>

fun sleep_loop :: "(kstate \<Rightarrow> outcome) \<Rightarrow> nat \<Rightarrow> (kstate \<Rightarrow> kstate) list \<Rightarrow> kstate \<Rightarrow> outcome"
and parked :: "(kstate \<Rightarrow> outcome) \<Rightarrow> nat \<Rightarrow> (kstate \<Rightarrow> kstate) list \<Rightarrow> kstate \<Rightarrow> outcome" where
  "sleep_loop body cur env st =
     (case body st of
        Suspended st' \<Rightarrow> parked body cur env st'
      | r \<Rightarrow> r)"
| "parked body cur [] st = Suspended st"
| "parked body cur (e # es) st =
     (let st1 = e st in
      if state (ptable st1 ! cur) = RUNNABLE
      then sleep_loop body cur es (sleep_wake cur True (set_state cur RUNNING (acquire st1)))
      else parked body cur es st1)"

subsection \<open>exit\<close>





subsection \<open>check_and_free_shared_pgdir, wait, join\<close>

fun count_shared :: "nat \<Rightarrow> nat list \<Rightarrow> int \<Rightarrow> proc list \<Rightarrow> int" where
  "count_shared d [] users t = users"
| "count_shared d (i # is) users t =
     count_shared d is
       (if i \<noteq> d \<and> pgdir (t ! i) = pgdir (t ! d)
           \<and> state (t ! i) \<noteq> UNUSED \<and> state (t ! i) \<noteq> ZOMBIE
        then users + 1 else users) t"

definition check_and_free_shared_pgdir :: "nat \<Rightarrow> kstate \<Rightarrow> kstate" where
  "check_and_free_shared_pgdir d st =
     (if pgdir (ptable st ! d) = 0 then st
      else if count_shared d [0..<length (ptable st)] 0 (ptable st) = 0
           then extern (Freevm (pgdir (ptable st ! d))) st
           else st)"

text \<open>
  One scan of the table by wait: \<open>Inl pid\<close> when a zombie child was reaped and wait
  returns, \<open>Inr havekids\<close> when the scan reached the end of the table. \<open>wait_reap\<close> is
  the block that reaps the zombie child in slot \<open>i\<close>; \<open>p->name[0] = 0\<close> makes the name
  the empty string.
\<close>

definition wait_reap :: "nat \<Rightarrow> kstate \<Rightarrow> int \<times> kstate" where
  "wait_reap i st =
     (let p = ptable st ! i;
          st1 = upd_proc i (\<lambda>p. p\<lparr>kstack := 0\<rparr>) (extern (Kfree (kstack p)) st);
          st2 = check_and_free_shared_pgdir i st1;
          st3 = upd_proc i (\<lambda>p. p\<lparr>pid := 0, parent := None, name := [], killed := 0\<rparr>) st2;
          st4 = set_state i UNUSED st3
      in (pid p, release st4))"

fun wait_scan :: "nat \<Rightarrow> nat list \<Rightarrow> bool \<Rightarrow> kstate \<Rightarrow> (int + bool) \<times> kstate" where
  "wait_scan cur [] havekids st = (Inr havekids, st)"
| "wait_scan cur (i # is) havekids st =
     (let p = ptable st ! i in
      if parent p \<noteq> Some cur \<or> is_thread p \<noteq> 0 then wait_scan cur is havekids st
      else if state p = ZOMBIE then
        (case wait_reap i st of (r, st') \<Rightarrow> (Inl r, st'))
      else wait_scan cur is True st)"

definition wait_body :: "nat \<Rightarrow> kstate \<Rightarrow> outcome" where
  "wait_body cur st =
     (case wait_scan cur [0..<length (ptable st)] False st of
        (Inl r, st') \<Rightarrow> Returned r st'
      | (Inr havekids, st') \<Rightarrow>
          if \<not> havekids \<or> killed (ptable st' ! cur) \<noteq> 0 then Returned (- 1) (release st')
          else sleep cur (Some (ProcChan cur)) True st')"

definition wait :: "(kstate \<Rightarrow> kstate) list \<Rightarrow> nat \<Rightarrow> kstate \<Rightarrow> outcome" where
  "wait env cur st = sleep_loop (wait_body cur) cur env (acquire st)"

text \<open>
  One scan of the table by join; \<open>stack_ptr_user\<close> is the user address the child's stack
  is written to.
\<close>

fun join_scan ::
  "(u32 \<Rightarrow> u32 \<Rightarrow> bool) \<Rightarrow> u32 \<Rightarrow> nat \<Rightarrow> nat list \<Rightarrow> bool \<Rightarrow> kstate \<Rightarrow> (int + bool) \<times> kstate" where
  "join_scan cpok stack_ptr_user cur [] havekids st = (Inr havekids, st)"
| "join_scan cpok stack_ptr_user cur (i # is) havekids st =
     (let p = ptable st ! i in
      if parent p \<noteq> Some cur \<or> is_thread p = 0
      then join_scan cpok stack_ptr_user cur is havekids st
      else if state p = ZOMBIE then
        (case copyout cpok (pgdir (ptable st ! cur)) stack_ptr_user (user_stack p) st of
           None \<Rightarrow> (Inl (- 2), release st)
         | Some st0 \<Rightarrow>
             let st1 = upd_proc i (\<lambda>p. p\<lparr>kstack := 0\<rparr>) (extern (Kfree (kstack p)) st0);
                 st2 = upd_proc i (\<lambda>p. p\<lparr>pid := 0, parent := None, name := [], killed := 0\<rparr>) st1;
                 st3 = set_state i UNUSED st2;
                 st4 = upd_proc i (\<lambda>p. p\<lparr>is_thread := 0, user_stack := 0\<rparr>) st3
             in (Inl (pid p), release st4))
      else join_scan cpok stack_ptr_user cur is True st)"

definition join_body :: "(u32 \<Rightarrow> u32 \<Rightarrow> bool) \<Rightarrow> u32 \<Rightarrow> nat \<Rightarrow> kstate \<Rightarrow> outcome" where
  "join_body cpok stack_ptr_user cur st =
     (case join_scan cpok stack_ptr_user cur [0..<length (ptable st)] False st of
        (Inl r, st') \<Rightarrow> Returned r st'
      | (Inr havekids, st') \<Rightarrow>
          if \<not> havekids \<or> killed (ptable st' ! cur) \<noteq> 0 then Returned (- 1) (release st')
          else sleep cur (Some (ProcChan cur)) True st')"

definition join ::
  "(u32 \<Rightarrow> u32 \<Rightarrow> bool) \<Rightarrow> (kstate \<Rightarrow> kstate) list \<Rightarrow> u32 \<Rightarrow> nat \<Rightarrow> kstate \<Rightarrow> outcome" where
  "join cpok env stack_ptr_user cur st =
     sleep_loop (join_body cpok stack_ptr_user cur) cur env (acquire st)"

text \<open>The state an outcome leaves, and the page directories torn down by \<open>freevm\<close>.\<close>

fun final_state :: "outcome \<Rightarrow> kstate option" where
  "final_state (Returned r st) = Some st"
| "final_state (Suspended st) = Some st"
| "final_state (Panicked m) = None"

fun ret_val :: "outcome \<Rightarrow> int option" where
  "ret_val (Returned r st) = Some r"
| "ret_val (Suspended st) = None"
| "ret_val (Panicked m) = None"

fun freevm_calls :: "extcall list \<Rightarrow> u32 list" where
  "freevm_calls [] = []"
| "freevm_calls (Freevm pd # cs) = pd # freevm_calls cs"
| "freevm_calls (c # cs) = freevm_calls cs"

section \<open>The ticket lock of thread.h and ulib.c\<close>

record ticket_lock_t =
  ticket :: u32
  turn :: u32

text \<open>
  \<open>xadd(addr, val)\<close> is one locked \<open>xaddl\<close>: it adds \<open>val\<close> to \<open>*addr\<close> and returns what
  \<open>*addr\<close> held before. The model takes the old content of \<open>*addr\<close> and gives the returned
  value and the new content.
\<close>

definition xadd :: "u32 \<Rightarrow> u32 \<Rightarrow> u32 \<times> u32" where
  "xadd old val = (old, old + val)"

definition ticket_lock_init :: "ticket_lock_t \<Rightarrow> ticket_lock_t" where
  "ticket_lock_init lk = lk\<lparr>ticket := 0, turn := 0\<rparr>"

text \<open>
  \<open>ticket_lock_acquire\<close> is its first statement, \<open>my_ticket = xadd(&lk->ticket, 1)\<close>,
  followed by the loop \<open>while (lk->turn != my_ticket)\<close>, whose every test reads
  \<open>lk->turn\<close> anew.
\<close>

definition acquire_xadd :: "ticket_lock_t \<Rightarrow> u32 \<times> ticket_lock_t" where
  "acquire_xadd lk = (case xadd (ticket lk) 1 of (my_ticket, t) \<Rightarrow> (my_ticket, lk\<lparr>ticket := t\<rparr>))"

definition acquire_spins :: "ticket_lock_t \<Rightarrow> u32 \<Rightarrow> bool" where
  "acquire_spins lk my_ticket = (turn lk \<noteq> my_ticket)"

definition ticket_lock_release :: "ticket_lock_t \<Rightarrow> ticket_lock_t" where
  "ticket_lock_release lk = lk\<lparr>turn := snd (xadd (turn lk) 1)\<rparr>"

text \<open>
  Threads that run the loop of threadtest.c, \<open>ticket_lock_acquire; ...;
  ticket_lock_release\<close>, on one lock. A thread is outside the lock (\<open>Idle\<close>), inside the
  loop of \<open>ticket_lock_acquire\<close> with its ticket (\<open>Spinning\<close>), or between acquire and
  release (\<open>Holding\<close>). The atomic steps are the \<open>xadd\<close> of acquire, one test of the
  loop condition, and the \<open>xadd\<close> of release; a schedule is the list of the threads that
  take the next step. The system records the order in which tickets were drawn
  (\<open>issued\<close>), the order in which acquires completed (\<open>entered\<close>) and the number of
  releases.
\<close>

datatype tstate = Idle | Spinning u32 | Holding

record lsys =
  lk :: ticket_lock_t
  thr :: "tstate list"
  issued :: "nat list"
  entered :: "nat list"
  released :: nat

definition lstep :: "nat \<Rightarrow> lsys \<Rightarrow> lsys" where
  "lstep i s =
     (if length (thr s) \<le> i then s
      else case thr s ! i of
        Idle \<Rightarrow>
          (case acquire_xadd (lk s) of
             (my_ticket, l) \<Rightarrow>
               s\<lparr>lk := l, thr := (thr s)[i := Spinning my_ticket], issued := issued s @ [i]\<rparr>)
      | Spinning my_ticket \<Rightarrow>
          if acquire_spins (lk s) my_ticket then s
          else s\<lparr>thr := (thr s)[i := Holding], entered := entered s @ [i]\<rparr>
      | Holding \<Rightarrow>
          s\<lparr>lk := ticket_lock_release (lk s), thr := (thr s)[i := Idle],
            released := released s + 1\<rparr>)"

definition lrun :: "nat list \<Rightarrow> lsys \<Rightarrow> lsys" where
  "lrun schedule s = fold lstep schedule s"

definition linit :: "nat \<Rightarrow> lsys" where
  "linit K =
     \<lparr>lk = ticket_lock_init \<lparr>ticket = 0, turn = 0\<rparr>, thr = replicate K Idle,
      issued = [], entered = [], released = 0\<rparr>"

section \<open>Example states\<close>

definition slot0 :: proc where
  "slot0 =
     \<lparr>sz = 0, pgdir = 0, kstack = 0, state = UNUSED, pid = 0, parent = None,
      tf = \<lparr>eax = 0, eip = 0, esp = 0, tf_regs = []\<rparr>, kret = NoEntry, context_eip = NoEntry,
      chan = None, killed = 0, ofile = [0, 0], cwd = 0, name = [], is_thread = 0,
      user_stack = 0\<rparr>"

definition kstate0 :: "proc list \<Rightarrow> kstate" where
  "kstate0 t =
     \<lparr>ptable = t, nextpid = 10, initproc = Some 0, locked = False, calls = [],
      state_writes = []\<rparr>"

text \<open>Three sleepers, two of them on the channel of slot 1, and a running unit.\<close>

definition sleepers :: kstate where
  "sleepers = kstate0
     [slot0\<lparr>state := SLEEPING, pid := 1, chan := Some (ProcChan 1)\<rparr>,
      slot0\<lparr>state := RUNNING, pid := 2\<rparr>,
      slot0\<lparr>state := SLEEPING, pid := 3, chan := Some (AddrChan 9)\<rparr>,
      slot0\<lparr>state := SLEEPING, pid := 4, chan := Some (ProcChan 1)\<rparr>]"

text \<open>A table whose first free slot is slot 2.\<close>

definition busy2 :: kstate where
  "busy2 = kstate0
     [slot0\<lparr>state := SLEEPING, pid := 1, chan := Some (ProcChan 0)\<rparr>,
      slot0\<lparr>state := RUNNING, pid := 2, parent := Some 0, sz := 0x3000, pgdir := 0x7000,
            cwd := 5, name := ''sh'', ofile := [0, 8]\<rparr>,
      slot0,
      slot0]"

text \<open>
  The table \<open>busy2\<close> after slot 1 has called clone and the first \<open>copyout\<close> has failed.
\<close>

definition failed_clone :: kstate where
  "failed_clone = snd (clone 0x1000 0x8000 (\<lambda>pd va. False) 1 0x400 1 2 0x2000 busy2)"


text \<open>
  A process (slot 1, child of init) with a live thread (slot 2), a zombie thread (slot 3)
  and a zombie child process (slot 4).
\<close>

definition family :: kstate where
  "family = kstate0
     [slot0\<lparr>state := SLEEPING, pid := 1, pgdir := 0x4000, chan := Some (ProcChan 0)\<rparr>,
      slot0\<lparr>state := RUNNING, pid := 2, parent := Some 0, sz := 0x3000, pgdir := 0x7000\<rparr>,
      slot0\<lparr>state := RUNNABLE, pid := 3, parent := Some 1, sz := 0x3000, pgdir := 0x7000,
            is_thread := 1, user_stack := 0x1000, kstack := 0x8000\<rparr>,
      slot0\<lparr>state := ZOMBIE, pid := 4, parent := Some 1, sz := 0x3000, pgdir := 0x7000,
            is_thread := 1, user_stack := 0x2000, kstack := 0x9000\<rparr>,
      slot0\<lparr>state := ZOMBIE, pid := 5, parent := Some 1, sz := 0x3000, pgdir := 0x6000,
            kstack := 0xA000, name := ''ls''\<rparr>]"



text \<open>
  The invariant of the system of threads: the counters are the numbers of tickets drawn
  and of releases, as 32-bit words; the acquires completed so far are the first drawn
  tickets, in the order they were drawn; there is at most one more of them than
  releases, and as many more as there are holding threads; each thread that is not idle
  has one ticket between the one in turn and the next to issue; a spinning thread holds
  a ticket not yet served, and a holding thread the one in turn.
\<close>

definition linv :: "lsys \<Rightarrow> bool" where
  "linv s \<longleftrightarrow>
     ticket (lk s) = of_nat (length (issued s)) \<and>
     turn (lk s) = of_nat (released s) \<and>
     entered s = take (length (entered s)) (issued s) \<and>
     released s \<le> length (entered s) \<and>
     length (entered s) \<le> released s + 1 \<and>
     length (entered s) \<le> length (issued s) \<and>
     length (issued s) = released s + length (filter (\<lambda>t. t \<noteq> Idle) (thr s)) \<and>
     released s + length (filter (\<lambda>t. t = Holding) (thr s)) = length (entered s) \<and>
     (\<forall>i < length (thr s). \<forall>t. thr s ! i = Spinning t \<longrightarrow>
        (\<exists>n. length (entered s) \<le> n \<and> n < length (issued s) \<and> issued s ! n = i
           \<and> t = of_nat n)) \<and>
     (\<forall>i < length (thr s). thr s ! i = Holding \<longrightarrow>
        length (entered s) = released s + 1 \<and> issued s ! released s = i)"

section \<open>Properties\<close>

subsection \<open>Basic facts\<close>

lemma ptable_upd_proc [simp]: "ptable (upd_proc i f st) = (ptable st)[i := f (ptable st ! i)]"
  by (simp add: upd_proc_def)

lemma ptable_set_state [simp]:
  "ptable (set_state i s st) = (ptable st)[i := (ptable st ! i)\<lparr>state := s\<rparr>]"
  by (simp add: set_state_def upd_proc_def)

lemma ptable_release [simp]: "ptable (release st) = ptable st"
  by (simp add: release_def)

lemma ptable_acquire [simp]: "ptable (acquire st) = ptable st"
  by (simp add: acquire_def)

lemma ptable_extern [simp]: "ptable (extern c st) = ptable st"
  by (simp add: extern_def)

lemma upt_split: "i < n \<Longrightarrow> [0..<n] = [0..<i] @ i # [Suc i..<n]"
  using upt_add_eq_append [of 0 i "n - i"] upt_conv_Cons [of i n] by simp

lemma int32_id: "- (2 ^ 31) \<le> n \<Longrightarrow> n < 2 ^ 31 \<Longrightarrow> int32 n = n"
  by (simp add: int32_def)

lemma int32_wraps: "int32 (2147483647 + 1) = - 2147483648"
  by (simp add: int32_def)

lemma length_filter_update:
  "i < length xs \<Longrightarrow>
   length (filter P (xs[i := y])) + (if P (xs ! i) then 1 else 0) =
   length (filter P xs) + (if P y then 1 else 0)"
proof (induction xs arbitrary: i)
  case Nil
  then show ?case by simp
next
  case (Cons x xs)
  then show ?case by (cases i) auto
qed

subsection \<open>wakeup1\<close>

lemma wakeup1_loop_length [simp]:
  "length (ptable (wakeup1_loop c is st)) = length (ptable st)"
  by (induction "is" arbitrary: st) simp_all

lemma wakeup1_loop_nth:
  "j < length (ptable st) \<Longrightarrow>
   ptable (wakeup1_loop c is st) ! j =
     (if j \<in> set is \<and> state (ptable st ! j) = SLEEPING \<and> chan (ptable st ! j) = c
      then (ptable st ! j)\<lparr>state := RUNNABLE\<rparr> else ptable st ! j)"
proof (induction "is" arbitrary: st)
  case Nil
  then show ?case by simp
next
  case (Cons i "is")
  show ?case
  proof (cases "state (ptable st ! i) = SLEEPING \<and> chan (ptable st ! i) = c")
    case True
    with Cons show ?thesis
      by (cases "i = j") (auto simp: nth_list_update)
  next
    case False
    with Cons show ?thesis by auto
  qed
qed

lemma wakeup1_loop_noop:
  "\<forall>i \<in> set is. \<not> (state (ptable st ! i) = SLEEPING \<and> chan (ptable st ! i) = c) \<Longrightarrow>
   wakeup1_loop c is st = st"
  by (induction "is" arbitrary: st) auto

lemma wakeup1_length [simp]: "length (ptable (wakeup1 c st)) = length (ptable st)"
  by (simp add: wakeup1_def)

lemma wakeup1_nth:
  "j < length (ptable st) \<Longrightarrow>
   ptable (wakeup1 c st) ! j =
     (if state (ptable st ! j) = SLEEPING \<and> chan (ptable st ! j) = c
      then (ptable st ! j)\<lparr>state := RUNNABLE\<rparr> else ptable st ! j)"
  by (simp add: wakeup1_def wakeup1_loop_nth)

lemma slot0_sel [simp]:
  "sz slot0 = 0" "pgdir slot0 = 0" "kstack slot0 = 0" "state slot0 = UNUSED" "pid slot0 = 0"
  "parent slot0 = None" "kret slot0 = NoEntry" "context_eip slot0 = NoEntry"
  "chan slot0 = None" "killed slot0 = 0" "ofile slot0 = [0, 0]" "cwd slot0 = 0" "name slot0 = []"
  "is_thread slot0 = 0" "user_stack slot0 = 0"
  by (simp_all add: slot0_def)

text \<open>
  C7. For every channel and every table, \<open>wakeup1\<close> (and \<open>wakeup\<close>, which runs it under
  \<open>ptable.lock\<close>) makes \<open>RUNNABLE\<close> exactly the slots that are \<open>SLEEPING\<close> on that channel,
  all of them, and changes nothing else of any slot; when no slot sleeps on the channel
  the whole state is unchanged.
\<close>

theorem wakeup1_broadcast:
  "length (ptable (wakeup1 c st)) = length (ptable st) \<and>
   (\<forall>i < length (ptable st).
      ptable (wakeup1 c st) ! i =
        (if state (ptable st ! i) = SLEEPING \<and> chan (ptable st ! i) = c
         then (ptable st ! i)\<lparr>state := RUNNABLE\<rparr> else ptable st ! i)) \<and>
   ((\<forall>i < length (ptable st).
       \<not> (state (ptable st ! i) = SLEEPING \<and> chan (ptable st ! i) = c)) \<longrightarrow>
      wakeup1 c st = st) \<and>
   ptable (wakeup c st) = ptable (wakeup1 c st)"
proof (intro conjI allI impI)
  show "ptable (wakeup c st) = ptable (wakeup1 c st)"
    unfolding wakeup_def by (rule nth_equalityI) (simp_all add: wakeup1_nth)
next
  assume "\<forall>i < length (ptable st).
       \<not> (state (ptable st ! i) = SLEEPING \<and> chan (ptable st ! i) = c)"
  then show "wakeup1 c st = st"
    unfolding wakeup1_def by (intro wakeup1_loop_noop) simp
qed (simp_all add: wakeup1_nth)

theorem wakeup1_broadcast_witness:
  "ptable (wakeup (Some (ProcChan 1)) sleepers) ! 0 =
     slot0\<lparr>state := RUNNABLE, pid := 1, chan := Some (ProcChan 1)\<rparr>
   \<and> ptable (wakeup (Some (ProcChan 1)) sleepers) ! 2 =
     slot0\<lparr>state := SLEEPING, pid := 3, chan := Some (AddrChan 9)\<rparr>
   \<and> ptable (wakeup (Some (ProcChan 1)) sleepers) ! 3 =
     slot0\<lparr>state := RUNNABLE, pid := 4, chan := Some (ProcChan 1)\<rparr>
   \<and> wakeup1 (Some (ProcChan 2)) sleepers = sleepers"
proof -
  have len: "length (ptable sleepers) = 4"
    by (simp add: sleepers_def kstate0_def)
  have none: "\<forall>i < length (ptable sleepers).
      \<not> (state (ptable sleepers ! i) = SLEEPING \<and> chan (ptable sleepers ! i) = Some (ProcChan 2))"
    by (simp add: sleepers_def kstate0_def less_Suc_eq numeral_eq_Suc)
  have a: "wakeup1 (Some (ProcChan 2)) sleepers = sleepers"
    using wakeup1_broadcast [of "Some (ProcChan 2)" sleepers] none by blast
  let ?t = "ptable (wakeup1 (Some (ProcChan 1)) sleepers)"
  have b: "\<And>i. i < 4 \<Longrightarrow> ?t ! i =
        (if state (ptable sleepers ! i) = SLEEPING \<and> chan (ptable sleepers ! i) = Some (ProcChan 1)
         then (ptable sleepers ! i)\<lparr>state := RUNNABLE\<rparr> else ptable sleepers ! i)"
    and d: "ptable (wakeup (Some (ProcChan 1)) sleepers) = ?t"
    using wakeup1_broadcast [of "Some (ProcChan 1)" sleepers] len by simp_all
  have "?t ! 0 = slot0\<lparr>state := RUNNABLE, pid := 1, chan := Some (ProcChan 1)\<rparr>"
    by (subst b) (simp_all add: sleepers_def kstate0_def)
  moreover have "?t ! 2 = slot0\<lparr>state := SLEEPING, pid := 3, chan := Some (AddrChan 9)\<rparr>"
    by (subst b) (simp_all add: sleepers_def kstate0_def)
  moreover have "?t ! 3 = slot0\<lparr>state := RUNNABLE, pid := 4, chan := Some (ProcChan 1)\<rparr>"
    by (subst b) (simp_all add: sleepers_def kstate0_def)
  ultimately show ?thesis using a d by simp
qed

subsection \<open>kill\<close>

lemma kill_loop_miss:
  "\<forall>i \<in> set is. pid (ptable st ! i) \<noteq> k \<Longrightarrow> kill_loop k is st = (- 1, release st)"
  by (induction "is") auto

lemma kill_loop_hit:
  "i < length (ptable st) \<Longrightarrow> pid (ptable st ! i) = k \<Longrightarrow>
   \<forall>j \<in> set js. pid (ptable st ! j) \<noteq> k \<Longrightarrow>
   fst (kill_loop k (js @ i # is) st) = 0 \<and>
   ptable (snd (kill_loop k (js @ i # is) st)) =
     (ptable st)[i := (ptable st ! i)\<lparr>killed := 1,
        state := (if state (ptable st ! i) = SLEEPING then RUNNABLE else state (ptable st ! i))\<rparr>]"
  by (induction js) (auto simp: Let_def list_update_same_conv)

text \<open>
  For every id, \<open>kill\<close> looks for the first slot whose \<open>pid\<close> field is the id, whatever
  the state of the slot. When there is one it sets that slot's \<open>killed\<close> flag, makes the
  slot \<open>RUNNABLE\<close> if it was \<open>SLEEPING\<close>, changes no other slot and returns 0; when no slot
  has the id it returns -1 and the table is unchanged.
\<close>

lemma kill_spec:
  "(\<forall>i < length (ptable st).
      pid (ptable st ! i) = k \<and> (\<forall>j < i. pid (ptable st ! j) \<noteq> k) \<longrightarrow>
      fst (kill k st) = 0 \<and>
      ptable (snd (kill k st)) =
        (ptable st)[i := (ptable st ! i)\<lparr>killed := 1,
           state := (if state (ptable st ! i) = SLEEPING then RUNNABLE
                     else state (ptable st ! i))\<rparr>]) \<and>
   ((\<forall>i < length (ptable st). pid (ptable st ! i) \<noteq> k) \<longrightarrow>
      fst (kill k st) = - 1 \<and> ptable (snd (kill k st)) = ptable st)"
proof (intro conjI allI impI)
  fix i
  assume i: "i < length (ptable st)"
    and h: "pid (ptable st ! i) = k \<and> (\<forall>j < i. pid (ptable st ! j) \<noteq> k)"
  have split: "[0..<length (ptable st)] = [0..<i] @ i # [Suc i..<length (ptable st)]"
    using i by (rule upt_split)
  have "fst (kill_loop k ([0..<i] @ i # [Suc i..<length (ptable st)]) (acquire st)) = 0 \<and>
        ptable (snd (kill_loop k ([0..<i] @ i # [Suc i..<length (ptable st)]) (acquire st))) =
          (ptable (acquire st))[i := (ptable (acquire st) ! i)\<lparr>killed := 1,
             state := (if state (ptable (acquire st) ! i) = SLEEPING then RUNNABLE
                       else state (ptable (acquire st) ! i))\<rparr>]"
    by (rule kill_loop_hit) (use i h in auto)
  then show "fst (kill k st) = 0"
    and "ptable (snd (kill k st)) =
        (ptable st)[i := (ptable st ! i)\<lparr>killed := 1,
           state := (if state (ptable st ! i) = SLEEPING then RUNNABLE
                     else state (ptable st ! i))\<rparr>]"
    unfolding kill_def split [symmetric] by simp_all
next
  assume "\<forall>i < length (ptable st). pid (ptable st ! i) \<noteq> k"
  then have "kill_loop k [0..<length (ptable st)] (acquire st) = (- 1, release (acquire st))"
    by (intro kill_loop_miss) simp
  then show "fst (kill k st) = - 1" and "ptable (snd (kill k st)) = ptable st"
    by (simp_all add: kill_def)
qed

lemma kill_spec_sleepers:
  "fst (kill 3 sleepers) = 0
   \<and> ptable (snd (kill 3 sleepers)) =
       (ptable sleepers)[2 := slot0\<lparr>state := RUNNABLE, pid := 3, chan := Some (AddrChan 9), killed := 1\<rparr>]
   \<and> fst (kill 2 sleepers) = 0
   \<and> ptable (snd (kill 2 sleepers)) =
       (ptable sleepers)[1 := slot0\<lparr>state := RUNNING, pid := 2, killed := 1\<rparr>]
   \<and> fst (kill 7 sleepers) = - 1 \<and> ptable (snd (kill 7 sleepers)) = ptable sleepers"
proof -
  have len: "length (ptable sleepers) = 4"
    by (simp add: sleepers_def kstate0_def)
  have "\<forall>i < length (ptable sleepers). pid (ptable sleepers ! i) \<noteq> 7"
    by (simp add: sleepers_def kstate0_def less_Suc_eq numeral_eq_Suc)
  then have a: "fst (kill 7 sleepers) = - 1 \<and> ptable (snd (kill 7 sleepers)) = ptable sleepers"
    using kill_spec [of sleepers 7] by blast
  have "pid (ptable sleepers ! 2) = 3 \<and> (\<forall>j < 2. pid (ptable sleepers ! j) \<noteq> 3)"
    by (simp add: sleepers_def kstate0_def less_Suc_eq numeral_eq_Suc)
  then have b: "fst (kill 3 sleepers) = 0 \<and>
      ptable (snd (kill 3 sleepers)) =
        (ptable sleepers)[2 := (ptable sleepers ! 2)\<lparr>killed := 1,
           state := (if state (ptable sleepers ! 2) = SLEEPING then RUNNABLE
                     else state (ptable sleepers ! 2))\<rparr>]"
    using kill_spec [of sleepers 3, THEN conjunct1, rule_format, of 2] len by simp
  have "pid (ptable sleepers ! 1) = 2 \<and> (\<forall>j < 1. pid (ptable sleepers ! j) \<noteq> 2)"
    by (simp add: sleepers_def kstate0_def)
  then have c: "fst (kill 2 sleepers) = 0 \<and>
      ptable (snd (kill 2 sleepers)) =
        (ptable sleepers)[1 := (ptable sleepers ! 1)\<lparr>killed := 1,
           state := (if state (ptable sleepers ! 1) = SLEEPING then RUNNABLE
                     else state (ptable sleepers ! 1))\<rparr>]"
    using kill_spec [of sleepers 2, THEN conjunct1, rule_format, of 1] len by simp
  have "(ptable sleepers ! 2)\<lparr>killed := 1,
           state := (if state (ptable sleepers ! 2) = SLEEPING then RUNNABLE
                     else state (ptable sleepers ! 2))\<rparr> =
        slot0\<lparr>state := RUNNABLE, pid := 3, chan := Some (AddrChan 9), killed := 1\<rparr>"
    by (simp add: sleepers_def kstate0_def)
  moreover have "(ptable sleepers ! 1)\<lparr>killed := 1,
           state := (if state (ptable sleepers ! 1) = SLEEPING then RUNNABLE
                     else state (ptable sleepers ! 1))\<rparr> =
        slot0\<lparr>state := RUNNING, pid := 2, killed := 1\<rparr>"
    by (simp add: sleepers_def kstate0_def)
  ultimately show ?thesis using a b c by simp
qed

subsection \<open>allocproc and sys_clone\<close>

lemma find_unused_hit:
  "state (t ! i) = UNUSED \<Longrightarrow> \<forall>j \<in> set js. state (t ! j) \<noteq> UNUSED \<Longrightarrow>
   find_unused (js @ i # is) t = Some i"
  by (induction js) auto

lemma find_unused_miss:
  "\<forall>j \<in> set js. state (t ! j) \<noteq> UNUSED \<Longrightarrow> find_unused js t = None"
  by (induction js) auto

lemma find_unused_first:
  "i < length t \<Longrightarrow> state (t ! i) = UNUSED \<Longrightarrow> \<forall>j < i. state (t ! j) \<noteq> UNUSED \<Longrightarrow>
   find_unused [0..<length t] t = Some i"
  by (subst upt_split [of i]) (auto intro: find_unused_hit)

lemma find_unused_none:
  "\<forall>j < length t. state (t ! j) \<noteq> UNUSED \<Longrightarrow> find_unused [0..<length t] t = None"
  by (rule find_unused_miss) simp


lemma allocproc_found:
  assumes "i < length (ptable st)" "state (ptable st ! i) = UNUSED"
    "\<forall>j < i. state (ptable st ! j) \<noteq> UNUSED" "ka \<noteq> 0"
  shows "allocproc ka st =
    (Some i,
     st\<lparr>ptable := (ptable st)[i := (ptable st ! i)\<lparr>state := EMBRYO,
            pid := nextpid st, is_thread := 0, user_stack := 0, kstack := ka,
            kret := Trapret, context_eip := Forkret\<rparr>],
        nextpid := int32 (nextpid st + 1), locked := False,
        calls := calls st @ [Kalloc ka],
        state_writes := state_writes st @ [(i, EMBRYO, True)]\<rparr>)"
  using assms find_unused_first [of i "ptable st"]
  by (cases "ptable st ! i"; cases st)
     (simp add: allocproc_def Let_def acquire_def release_def set_state_def upd_proc_def extern_def)

lemma allocproc_full:
  assumes "\<forall>j < length (ptable st). state (ptable st ! j) \<noteq> UNUSED"
  shows "allocproc ka st = (None, st\<lparr>locked := False\<rparr>)"
  using assms find_unused_none [of "ptable st"]
  by (simp add: allocproc_def Let_def acquire_def release_def)


lemma busy2_first_unused:
  "2 < length (ptable busy2) \<and> state (ptable busy2 ! 2) = UNUSED \<and>
   (\<forall>j < 2. state (ptable busy2 ! j) \<noteq> UNUSED)"
  by (simp add: less_Suc_eq numeral_2_eq_2 busy2_def kstate0_def)




text \<open>
  C6. When the stack region \<open>[stack, stack + PGSIZE)\<close> that \<open>sys_clone\<close> fetched does not
  lie inside the caller's address space (its base is at or beyond \<open>sz\<close>, or its end is
  beyond \<open>sz\<close>, which includes an end that wraps around), \<open>sys_clone\<close> returns -1 and the
  kernel state is the one it was called in: nothing was allocated, no slot changed, and
  \<open>nextpid\<close> and the calls to the collaborators are unchanged.
\<close>

theorem sys_clone_rejects:
  "(\<forall>stack. argptr 3 = Some stack \<longrightarrow>
      unat (sz (ptable st ! cur)) \<le> unat stack
      \<or> unat (sz (ptable st ! cur)) < unat stack + unat PGSIZE) \<longrightarrow>
   sys_clone PGSIZE ka cpok argptr cur st = (- 1, st)"
proof
  assume h: "\<forall>stack. argptr 3 = Some stack \<longrightarrow>
      unat (sz (ptable st ! cur)) \<le> unat stack
      \<or> unat (sz (ptable st ! cur)) < unat stack + unat PGSIZE"
  have "sz (ptable st ! cur) \<le> stack \<or> sz (ptable st ! cur) < stack + PGSIZE
        \<or> stack + PGSIZE < stack" if "argptr 3 = Some stack" for stack
  proof (cases "unat (sz (ptable st ! cur)) \<le> unat stack")
    case True
    then show ?thesis by (simp add: word_le_nat_alt)
  next
    case False
    with h that have lt: "unat (sz (ptable st ! cur)) < unat stack + unat PGSIZE" by blast
    show ?thesis
    proof (cases "stack \<le> stack + PGSIZE")
      case True
      then have "unat (stack + PGSIZE) = unat stack + unat PGSIZE"
        by (metis no_olen_add_nat unat_add_lem)
      with lt show ?thesis by (simp add: word_less_nat_alt)
    next
      case False
      then have "stack + PGSIZE < stack" by (simp only: not_le)
      then show ?thesis by blast
    qed
  qed
  then show "sys_clone PGSIZE ka cpok argptr cur st = (- 1, st)"
    by (auto simp: sys_clone_def split: option.splits)
qed


theorem sys_clone_rejects_witness:
  "sys_clone 0x1000 0x8000 (\<lambda>pd va. True) (\<lambda>n. Some (if n = 3 then 0x2800 else 0x100)) 1 busy2
     = (- 1, busy2)
   \<and> sys_clone 0x1000 0x8000 (\<lambda>pd va. True) (\<lambda>n. Some (if n = 3 then 0xFFFFF800 else 0x100)) 1 busy2
     = (- 1, busy2)
   \<and> sys_clone 0x1000 0x8000 (\<lambda>pd va. True) (\<lambda>n. Some (if n = 3 then 0x3000 else 0x100)) 1 busy2
     = (- 1, busy2)"
proof -
  have sz: "sz (ptable busy2 ! Suc 0) = 0x3000"
    by (simp add: busy2_def kstate0_def)
  show ?thesis
    using sys_clone_rejects [of "\<lambda>n. Some (if n = 3 then 0x2800 else 0x100)" busy2 1 "0x1000"
            "0x8000" "\<lambda>pd va. True"]
          sys_clone_rejects [of "\<lambda>n. Some (if n = 3 then 0xFFFFF800 else 0x100)" busy2 1 "0x1000"
            "0x8000" "\<lambda>pd va. True"]
          sys_clone_rejects [of "\<lambda>n. Some (if n = 3 then 0x3000 else 0x100)" busy2 1 "0x1000"
            "0x8000" "\<lambda>pd va. True"]
    by (simp add: sz)
qed

subsection \<open>clone\<close>

lemma dup_files_eq:
  "np \<noteq> cur \<Longrightarrow> np < length (ptable st) \<Longrightarrow>
   dup_files cur np is st =
     st\<lparr>ptable := (ptable st)[np := (ptable st ! np)\<lparr>ofile :=
            fold (\<lambda>i ofl. if ofile (ptable st ! cur) ! i \<noteq> 0
                           then ofl[i := ofile (ptable st ! cur) ! i] else ofl)
              is (ofile (ptable st ! np))\<rparr>],
        calls := calls st @
          map Filedup (filter (\<lambda>f. f \<noteq> 0) (map (\<lambda>i. ofile (ptable st ! cur) ! i) is))\<rparr>"
proof (induction "is" arbitrary: st)
  case Nil
  then show ?case by (cases st) (simp add: list_update_same_conv)
next
  case (Cons i "is")
  show ?case
  proof (cases "ofile (ptable st ! cur) ! i = 0")
    case True
    with Cons show ?thesis by simp
  next
    case False
    let ?st1 = "upd_proc np (\<lambda>p. p\<lparr>ofile := (ofile p)[i := ofile (ptable st ! cur) ! i]\<rparr>)
                  (extern (Filedup (ofile (ptable st ! cur) ! i)) st)"
    have 1: "ptable ?st1 ! cur = ptable st ! cur" "np < length (ptable ?st1)"
      using Cons.prems by simp_all
    have "dup_files cur np (i # is) st = dup_files cur np is ?st1"
      using False by (simp add: Let_def)
    also have "\<dots> = ?st1\<lparr>ptable := (ptable ?st1)[np := (ptable ?st1 ! np)\<lparr>ofile :=
            fold (\<lambda>i ofl. if ofile (ptable ?st1 ! cur) ! i \<noteq> 0
                           then ofl[i := ofile (ptable ?st1 ! cur) ! i] else ofl)
              is (ofile (ptable ?st1 ! np))\<rparr>],
        calls := calls ?st1 @
          map Filedup (filter (\<lambda>f. f \<noteq> 0) (map (\<lambda>i. ofile (ptable ?st1 ! cur) ! i) is))\<rparr>"
      using Cons.prems 1 by (intro Cons.IH) 
    finally show ?thesis
      using False Cons.prems unfolding 1
      by (cases st) (simp add: upd_proc_def extern_def)
  qed
qed


lemma clone_ok:
  assumes i: "i < length (ptable st)" "state (ptable st ! i) = UNUSED"
      "\<forall>j < i. state (ptable st ! j) \<noteq> UNUSED"
    and ka: "ka \<noteq> 0"
    and cur: "cur < length (ptable st)" "state (ptable st ! cur) \<noteq> UNUSED"
    and ok: "cpok (pgdir (ptable st ! cur)) (stack + PGSIZE - 4)"
      "cpok (pgdir (ptable st ! cur)) (stack + PGSIZE - 8)"
      "cpok (pgdir (ptable st ! cur)) (stack + PGSIZE - 12)"
  shows "clone PGSIZE ka cpok cur fcn arg1 arg2 stack st =
    (nextpid st,
     st\<lparr>ptable := (ptable st)[i := (ptable st ! i)\<lparr>
            sz := sz (ptable st ! cur), pgdir := pgdir (ptable st ! cur), kstack := ka,
            state := RUNNABLE, pid := nextpid st, parent := Some cur,
            tf := (tf (ptable st ! cur))\<lparr>eax := 0, eip := fcn, esp := stack + PGSIZE - 12\<rparr>,
            kret := Trapret, context_eip := Forkret,
            ofile := fold (\<lambda>k ofl. if ofile (ptable st ! cur) ! k \<noteq> 0
                           then ofl[k := ofile (ptable st ! cur) ! k] else ofl)
              [0..<length (ofile (ptable st ! cur))] (ofile (ptable st ! i)),
            cwd := cwd (ptable st ! cur), name := name (ptable st ! cur),
            is_thread := 1, user_stack := stack\<rparr>],
        nextpid := int32 (nextpid st + 1), locked := False,
        calls := calls st @
          [Kalloc ka,
           Copyout (pgdir (ptable st ! cur)) (stack + PGSIZE - 4) 0xffffffff,
           Copyout (pgdir (ptable st ! cur)) (stack + PGSIZE - 8) arg2,
           Copyout (pgdir (ptable st ! cur)) (stack + PGSIZE - 12) arg1] @
          map Filedup (filter (\<lambda>f. f \<noteq> 0) (ofile (ptable st ! cur))) @
          [Idup (cwd (ptable st ! cur))],
        state_writes := state_writes st @ [(i, EMBRYO, True), (i, RUNNABLE, True)]\<rparr>)"
proof -
  have ne: "i \<noteq> cur" using i cur by auto
  have mp: "map ((!) (ofile (ptable st ! cur))) [0..<length (ofile (ptable st ! cur))]
              = ofile (ptable st ! cur)"
    by (rule map_nth)
  show ?thesis
    using i ka cur ok ne mp
    by (cases "ptable st ! i"; cases "tf (ptable st ! cur)"; cases st)
       (simp add: clone_def allocproc_found [of i] copyout_def Let_def dup_files_eq
          acquire_def release_def set_state_def upd_proc_def extern_def cong: if_cong)
qed


text \<open>
  C4. When \<open>clone\<close> gets a slot and a kernel stack and its three \<open>copyout\<close> calls succeed,
  it writes into the caller's address space, each four bytes wide and in this order, the
  return address \<open>0xffffffff\<close> at \<open>stack + PGSIZE - 4\<close>, \<open>arg2\<close> at \<open>stack + PGSIZE - 8\<close>
  and \<open>arg1\<close> at \<open>stack + PGSIZE - 12\<close>; the new slot's \<open>esp\<close> is the last of these
  addresses, its \<open>eip\<close> is \<open>fcn\<close>, its \<open>eax\<close> is 0 and the rest of its trap frame is the
  caller's; it has the caller's \<open>pgdir\<close> and \<open>sz\<close>, is marked as a thread, remembers
  \<open>stack\<close>, is \<open>RUNNABLE\<close> and a child of the caller; no other slot changes, and clone
  returns the new slot's \<open>pid\<close>.
\<close>

theorem clone_builds_thread:
  "i < length (ptable st) \<and> state (ptable st ! i) = UNUSED \<and>
   (\<forall>j < i. state (ptable st ! j) \<noteq> UNUSED) \<and> ka \<noteq> 0 \<and>
   cur < length (ptable st) \<and> state (ptable st ! cur) \<noteq> UNUSED \<and>
   cpok (pgdir (ptable st ! cur)) (stack + PGSIZE - 4) \<and>
   cpok (pgdir (ptable st ! cur)) (stack + PGSIZE - 8) \<and>
   cpok (pgdir (ptable st ! cur)) (stack + PGSIZE - 12) \<longrightarrow>
   (let r = clone PGSIZE ka cpok cur fcn arg1 arg2 stack st;
        np = ptable (snd r) ! i;
        curproc = ptable st ! cur
    in calls (snd r) = calls st @
         [Kalloc ka,
          Copyout (pgdir curproc) (stack + PGSIZE - 4) 0xffffffff,
          Copyout (pgdir curproc) (stack + PGSIZE - 8) arg2,
          Copyout (pgdir curproc) (stack + PGSIZE - 12) arg1] @
         map Filedup (filter (\<lambda>f. f \<noteq> 0) (ofile curproc)) @ [Idup (cwd curproc)] \<and>
       esp (tf np) = stack + PGSIZE - 12 \<and> eip (tf np) = fcn \<and> eax (tf np) = 0 \<and>
       tf_regs (tf np) = tf_regs (tf curproc) \<and>
       pgdir np = pgdir curproc \<and> sz np = sz curproc \<and>
       is_thread np = 1 \<and> user_stack np = stack \<and>
       state np = RUNNABLE \<and> parent np = Some cur \<and>
       pid np = nextpid st \<and> fst r = nextpid st \<and>
       length (ptable (snd r)) = length (ptable st) \<and>
       (\<forall>j < length (ptable st). j \<noteq> i \<longrightarrow> ptable (snd r) ! j = ptable st ! j))"
proof
  assume h: "i < length (ptable st) \<and> state (ptable st ! i) = UNUSED \<and>
   (\<forall>j < i. state (ptable st ! j) \<noteq> UNUSED) \<and> ka \<noteq> 0 \<and>
   cur < length (ptable st) \<and> state (ptable st ! cur) \<noteq> UNUSED \<and>
   cpok (pgdir (ptable st ! cur)) (stack + PGSIZE - 4) \<and>
   cpok (pgdir (ptable st ! cur)) (stack + PGSIZE - 8) \<and>
   cpok (pgdir (ptable st ! cur)) (stack + PGSIZE - 12)"
  then have a: "i < length (ptable st)" "state (ptable st ! i) = UNUSED"
      "\<forall>j < i. state (ptable st ! j) \<noteq> UNUSED" "ka \<noteq> 0"
      "cur < length (ptable st)" "state (ptable st ! cur) \<noteq> UNUSED"
      "cpok (pgdir (ptable st ! cur)) (stack + PGSIZE - 4)"
      "cpok (pgdir (ptable st ! cur)) (stack + PGSIZE - 8)"
      "cpok (pgdir (ptable st ! cur)) (stack + PGSIZE - 12)"
    by simp_all
  note eq = clone_ok [of i st ka cur cpok stack PGSIZE fcn arg1 arg2, OF a]
  show "let r = clone PGSIZE ka cpok cur fcn arg1 arg2 stack st;
        np = ptable (snd r) ! i;
        curproc = ptable st ! cur
    in calls (snd r) = calls st @
         [Kalloc ka,
          Copyout (pgdir curproc) (stack + PGSIZE - 4) 0xffffffff,
          Copyout (pgdir curproc) (stack + PGSIZE - 8) arg2,
          Copyout (pgdir curproc) (stack + PGSIZE - 12) arg1] @
         map Filedup (filter (\<lambda>f. f \<noteq> 0) (ofile curproc)) @ [Idup (cwd curproc)] \<and>
       esp (tf np) = stack + PGSIZE - 12 \<and> eip (tf np) = fcn \<and> eax (tf np) = 0 \<and>
       tf_regs (tf np) = tf_regs (tf curproc) \<and>
       pgdir np = pgdir curproc \<and> sz np = sz curproc \<and>
       is_thread np = 1 \<and> user_stack np = stack \<and>
       state np = RUNNABLE \<and> parent np = Some cur \<and>
       pid np = nextpid st \<and> fst r = nextpid st \<and>
       length (ptable (snd r)) = length (ptable st) \<and>
       (\<forall>j < length (ptable st). j \<noteq> i \<longrightarrow> ptable (snd r) ! j = ptable st ! j)"
    unfolding Let_def eq using a by simp
qed

theorem clone_builds_thread_witness:
  "(let r = clone 0x1000 0x8000 (\<lambda>pd va. True) 1 0x40 0x11 0x22 0x2000 busy2;
        np = ptable (snd r) ! 2
    in calls (snd r) =
         [Kalloc 0x8000, Copyout 0x7000 0x2FFC 0xffffffff, Copyout 0x7000 0x2FF8 0x22,
          Copyout 0x7000 0x2FF4 0x11, Filedup 8, Idup 5] \<and>
       esp (tf np) = 0x2FF4 \<and> eip (tf np) = 0x40 \<and> eax (tf np) = 0 \<and>
       pgdir np = 0x7000 \<and> sz np = 0x3000 \<and>
       is_thread np = 1 \<and> user_stack np = 0x2000 \<and>
       state np = RUNNABLE \<and> parent np = Some 1 \<and>
       pid np = 10 \<and> fst r = 10)"
proof -
  have cp: "ptable busy2 ! Suc 0 = slot0\<lparr>state := RUNNING, pid := 2, parent := Some 0, sz := 0x3000,
      pgdir := 0x7000, cwd := 5, name := ''sh'', ofile := [0, 8]\<rparr>"
    "calls busy2 = []" "nextpid busy2 = 10" "length (ptable busy2) = 4"
    by (simp_all add: busy2_def kstate0_def)
  show ?thesis
    using clone_builds_thread [of 2 busy2 "0x8000" 1 "\<lambda>pd va. True" "0x2000" "0x1000"
        "0x40" "0x11" "0x22"] busy2_first_unused
    by (simp add: Let_def cp)
qed

subsection \<open>Slots left by a failed clone\<close>

lemma busy2_sel:
  "length (ptable busy2) = 4" "calls busy2 = []" "state_writes busy2 = []" "nextpid busy2 = 10"
  "ptable busy2 ! 0 = slot0\<lparr>state := SLEEPING, pid := 1, chan := Some (ProcChan 0)\<rparr>"
  "ptable busy2 ! Suc 0 = slot0\<lparr>state := RUNNING, pid := 2, parent := Some 0, sz := 0x3000,
      pgdir := 0x7000, cwd := 5, name := ''sh'', ofile := [0, 8]\<rparr>"
  "ptable busy2 ! 2 = slot0" "ptable busy2 ! 3 = slot0"
  by (simp_all add: busy2_def kstate0_def)

lemma failed_clone_eq:
  "clone 0x1000 0x8000 (\<lambda>pd va. False) 1 0x400 1 2 0x2000 busy2 =
     (- 1, busy2\<lparr>ptable := (ptable busy2)[2 := slot0\<lparr>sz := 0x3000, pgdir := 0x7000,
                       state := UNUSED, pid := 10, parent := Some 1, kret := Trapret, context_eip := Forkret\<rparr>],
              nextpid := 11, calls := [Kalloc 0x8000, Kfree 0x8000],
              state_writes := [(2, EMBRYO, True), (2, UNUSED, False)]\<rparr>)"
  using allocproc_found [of 2 busy2 "0x8000"] busy2_first_unused
  by (simp add: clone_def copyout_def clone_undo_def Let_def busy2_sel int32_def
      upd_proc_def set_state_def extern_def)
     (simp add: busy2_def kstate0_def slot0_def)


lemma failed_clone_sel:
  "length (ptable failed_clone) = 4"
  "ptable failed_clone ! 0 = slot0\<lparr>state := SLEEPING, pid := 1, chan := Some (ProcChan 0)\<rparr>"
  "ptable failed_clone ! Suc 0 = slot0\<lparr>state := RUNNING, pid := 2, parent := Some 0, sz := 0x3000,
      pgdir := 0x7000, cwd := 5, name := ''sh'', ofile := [0, 8]\<rparr>"
  "ptable failed_clone ! 2 = slot0\<lparr>sz := 0x3000, pgdir := 0x7000,
      state := UNUSED, pid := 10, parent := Some 1, kret := Trapret, context_eip := Forkret\<rparr>"
  "ptable failed_clone ! 3 = slot0"
  "state_writes failed_clone = [(2, EMBRYO, True), (2, UNUSED, False)]"
  unfolding failed_clone_def failed_clone_eq by (simp_all add: busy2_sel)

lemma list4: "length xs = 4 \<Longrightarrow> xs = [xs ! 0, xs ! Suc 0, xs ! 2, xs ! 3]"
  by (auto simp: list_eq_iff_nth_eq less_Suc_eq numeral_eq_Suc)

text \<open>
  C10 (the code departs from it). \<open>kill\<close> compares the id with the \<open>pid\<close> field of every
  slot and does not look at the slot's state. The failure blocks of clone, and the one of
  \<open>allocproc\<close>, set a slot \<open>UNUSED\<close> and leave its \<open>pid\<close>; \<open>wait\<close> and \<open>join\<close> reset it to 0.
  In the table left by a failed clone no unit has the id 10, and \<open>kill 10\<close> returns 0 and
  sets the \<open>killed\<close> flag of the free slot 2; in the table \<open>busy2\<close> no unit has the id 0, and
  \<open>kill 0\<close> returns 0 and sets the \<open>killed\<close> flag of the free slot 2, where C10 has the
  result -1 and no slot changed. \<open>allocproc\<close> does not reset the flag: the unit it then
  creates in slot 2, with the id 10, has the \<open>killed\<close> flag set.
\<close>

theorem kill_marks_free_slot:
  "fst (clone 0x1000 0x8000 (\<lambda>pd va. False) 1 0x400 1 2 0x2000 busy2) = - 1 \<and>
   map (\<lambda>p. (pid p, state p, killed p)) (ptable failed_clone) =
     [(1, SLEEPING, 0), (2, RUNNING, 0), (10, UNUSED, 0), (0, UNUSED, 0)] \<and>
   fst (kill 10 failed_clone) = 0 \<and>
   map (\<lambda>p. (pid p, state p, killed p)) (ptable (snd (kill 10 failed_clone))) =
     [(1, SLEEPING, 0), (2, RUNNING, 0), (10, UNUSED, 1), (0, UNUSED, 0)] \<and>
   map (\<lambda>p. (pid p, state p, killed p)) (ptable busy2) =
     [(1, SLEEPING, 0), (2, RUNNING, 0), (0, UNUSED, 0), (0, UNUSED, 0)] \<and>
   fst (kill 0 busy2) = 0 \<and>
   map (\<lambda>p. (pid p, state p, killed p)) (ptable (snd (kill 0 busy2))) =
     [(1, SLEEPING, 0), (2, RUNNING, 0), (0, UNUSED, 1), (0, UNUSED, 0)] \<and>
   fst (allocproc 0x8000 (snd (kill 0 busy2))) = Some 2 \<and>
   map (\<lambda>p. (pid p, state p, killed p)) (ptable (snd (allocproc 0x8000 (snd (kill 0 busy2))))) =
     [(1, SLEEPING, 0), (2, RUNNING, 0), (10, EMBRYO, 1), (0, UNUSED, 0)]"
proof -
  have a: "map (\<lambda>p. (pid p, state p, killed p)) (ptable failed_clone) =
     [(1, SLEEPING, 0), (2, RUNNING, 0), (10, UNUSED, 0), (0, UNUSED, 0)]"
    by (subst list4 [of "ptable failed_clone"]) (simp_all add: failed_clone_sel slot0_sel)
  have b: "map (\<lambda>p. (pid p, state p, killed p)) (ptable busy2) =
     [(1, SLEEPING, 0), (2, RUNNING, 0), (0, UNUSED, 0), (0, UNUSED, 0)]"
    by (simp add: busy2_def kstate0_def slot0_sel)
  have u: "[0..<4] = [0, Suc 0, 2, 3]"
    by (simp add: upt_rec)
  have c: "fst (kill 10 failed_clone) = 0"
    "ptable (snd (kill 10 failed_clone)) = (ptable failed_clone)[2 := (ptable failed_clone ! 2)\<lparr>killed := 1\<rparr>]"
    by (simp_all add: kill_def failed_clone_sel u Let_def)
  have d: "fst (kill 0 busy2) = 0"
    "ptable (snd (kill 0 busy2)) = (ptable busy2)[2 := (ptable busy2 ! 2)\<lparr>killed := 1\<rparr>]"
    by (simp_all add: kill_def busy2_sel u Let_def)
  have c': "map (\<lambda>p. (pid p, state p, killed p)) (ptable (snd (kill 10 failed_clone))) =
     [(1, SLEEPING, 0), (2, RUNNING, 0), (10, UNUSED, 1), (0, UNUSED, 0)]"
    by (subst list4 [of "ptable (snd (kill 10 failed_clone))"])
       (simp_all add: c failed_clone_sel)
  have d': "map (\<lambda>p. (pid p, state p, killed p)) (ptable (snd (kill 0 busy2))) =
     [(1, SLEEPING, 0), (2, RUNNING, 0), (0, UNUSED, 1), (0, UNUSED, 0)]"
    by (subst list4 [of "ptable (snd (kill 0 busy2))"])
       (simp_all add: d busy2_sel)
  have e: "fst (clone 0x1000 0x8000 (\<lambda>pd va. False) 1 0x400 1 2 0x2000 busy2) = - 1"
    unfolding failed_clone_eq by simp
  have n: "nextpid (snd (kill 0 busy2)) = 10"
    by (simp add: kill_def busy2_sel u Let_def release_def upd_proc_def acquire_def)
  have p: "2 < length (ptable (snd (kill 0 busy2)))" "state (ptable (snd (kill 0 busy2)) ! 2) = UNUSED"
    "\<forall>j < 2. state (ptable (snd (kill 0 busy2)) ! j) \<noteq> UNUSED"
    using busy2_first_unused by (simp_all add: d busy2_sel)
  have k: "(0x8000 :: u32) \<noteq> 0" by simp
  note al = allocproc_found [OF p k]
  have f: "fst (allocproc 0x8000 (snd (kill 0 busy2))) = Some 2"
    unfolding al by simp
  have g: "map (\<lambda>p. (pid p, state p, killed p)) (ptable (snd (allocproc 0x8000 (snd (kill 0 busy2))))) =
     [(1, SLEEPING, 0), (2, RUNNING, 0), (10, EMBRYO, 1), (0, UNUSED, 0)]"
    unfolding al
    by (subst list4) (simp_all add: d n busy2_sel)
  show ?thesis
    using a b c(1) c' d(1) d' e f g by (intro conjI)
qed

subsection \<open>join\<close>

lemma freevm_calls_append [simp]:
  "freevm_calls (xs @ ys) = freevm_calls xs @ freevm_calls ys"
  by (induction xs rule: freevm_calls.induct) simp_all

lemma join_scan_skip:
  "\<forall>j \<in> set js. \<not> (parent (ptable st ! j) = Some cur \<and> is_thread (ptable st ! j) \<noteq> 0
      \<and> state (ptable st ! j) = ZOMBIE) \<Longrightarrow>
   join_scan cpok sp cur (js @ rest) hk st =
     join_scan cpok sp cur rest
       (hk \<or> (\<exists>j \<in> set js. parent (ptable st ! j) = Some cur \<and> is_thread (ptable st ! j) \<noteq> 0)) st"
  by (induction js arbitrary: hk) (auto simp: Let_def)

lemma join_scan_miss:
  "\<forall>j \<in> set js. \<not> (parent (ptable st ! j) = Some cur \<and> is_thread (ptable st ! j) \<noteq> 0
      \<and> state (ptable st ! j) = ZOMBIE) \<Longrightarrow>
   join_scan cpok sp cur js hk st =
     (Inr (hk \<or> (\<exists>j \<in> set js. parent (ptable st ! j) = Some cur \<and> is_thread (ptable st ! j) \<noteq> 0)), st)"
  using join_scan_skip [of js st cur cpok sp "[]" hk] by simp

lemma join_scan_first:
  assumes "i < length (ptable st)"
    "parent (ptable st ! i) = Some cur" "is_thread (ptable st ! i) \<noteq> 0"
    "state (ptable st ! i) = ZOMBIE"
    "\<forall>j < i. \<not> (parent (ptable st ! j) = Some cur \<and> is_thread (ptable st ! j) \<noteq> 0
      \<and> state (ptable st ! j) = ZOMBIE)"
  shows "join_scan cpok sp cur [0..<length (ptable st)] False st =
     (if cpok (pgdir (ptable st ! cur)) sp
      then (Inl (pid (ptable st ! i)),
            st\<lparr>ptable := (ptable st)[i := (ptable st ! i)\<lparr>kstack := 0, state := UNUSED,
                   pid := 0, parent := None, killed := 0, name := [], is_thread := 0,
                   user_stack := 0\<rparr>],
               locked := False,
               calls := calls st @ [Copyout (pgdir (ptable st ! cur)) sp (user_stack (ptable st ! i)),
                                    Kfree (kstack (ptable st ! i))],
               state_writes := state_writes st @ [(i, UNUSED, locked st)]\<rparr>)
      else (Inl (- 2), st\<lparr>locked := False\<rparr>))"
proof -
  have "join_scan cpok sp cur ([0..<i] @ i # [Suc i..<length (ptable st)]) False st =
        join_scan cpok sp cur (i # [Suc i..<length (ptable st)])
          (False \<or> (\<exists>j \<in> set [0..<i]. parent (ptable st ! j) = Some cur \<and> is_thread (ptable st ! j) \<noteq> 0)) st"
    by (rule join_scan_skip) (use assms in auto)
  then show ?thesis
    unfolding upt_split [OF assms(1), symmetric] using assms
    by (cases "ptable st ! i"; cases st)
       (simp add: copyout_def Let_def release_def set_state_def upd_proc_def extern_def)
qed

lemma join_scan_freevm:
  "freevm_calls (calls (snd (join_scan cpok sp cur js hk st))) = freevm_calls (calls st)"
  by (induction js arbitrary: hk)
     (auto simp: Let_def copyout_def release_def set_state_def upd_proc_def extern_def)

lemma sleep_calls:
  "final_state (sleep cur c b st) = Some st' \<Longrightarrow> calls st' = calls st"
  by (auto simp: sleep_def sched_def Let_def acquire_def set_state_def upd_proc_def
      split: if_splits)

lemma join_body_freevm:
  "final_state (join_body cpok sp cur st) = Some st' \<Longrightarrow>
   freevm_calls (calls st') = freevm_calls (calls st)"
  using join_scan_freevm [of cpok sp cur "[0..<length (ptable st)]" False st]
  by (auto simp: join_body_def release_def split: prod.splits sum.splits if_splits
      dest!: sleep_calls)


lemma sleep_loop_Returned:
  "body st = Returned r st' \<Longrightarrow> sleep_loop body cur env st = Returned r st'"
  by simp

text \<open>
  C5. When the first zombie thread child that \<open>join\<close> finds is slot \<open>i\<close>, \<open>join\<close> first
  copies the child's \<open>user_stack\<close> to \<open>stack_ptr_user\<close> in the caller's address space. If
  that \<open>copyout\<close> fails, \<open>join\<close> returns -2 and only releases \<open>ptable.lock\<close>: the table
  is unchanged (the slot is still a zombie with its kernel stack) and no collaborator was
  called. If it succeeds, \<open>join\<close> frees the kernel stack, resets the slot to \<open>UNUSED\<close> and
  returns the child's \<open>pid\<close>. Without any thread child \<open>join\<close> returns -1. No pass of
  \<open>join\<close> over the table calls \<open>freevm\<close>.
\<close>

theorem join_copyout_first:
  "(i < length (ptable st) \<and>
    parent (ptable st ! i) = Some cur \<and> is_thread (ptable st ! i) \<noteq> 0 \<and>
    state (ptable st ! i) = ZOMBIE \<and>
    (\<forall>j < i. \<not> (parent (ptable st ! j) = Some cur \<and> is_thread (ptable st ! j) \<noteq> 0
       \<and> state (ptable st ! j) = ZOMBIE)) \<longrightarrow>
      (\<not> cpok (pgdir (ptable st ! cur)) sp \<longrightarrow>
         join cpok env sp cur st = Returned (- 2) (st\<lparr>locked := False\<rparr>)) \<and>
      (cpok (pgdir (ptable st ! cur)) sp \<longrightarrow>
         join cpok env sp cur st =
           Returned (pid (ptable st ! i))
            (st\<lparr>ptable := (ptable st)[i := (ptable st ! i)\<lparr>kstack := 0, state := UNUSED,
                   pid := 0, parent := None, killed := 0, name := [], is_thread := 0,
                   user_stack := 0\<rparr>],
               locked := False,
               calls := calls st @
                 [Copyout (pgdir (ptable st ! cur)) sp (user_stack (ptable st ! i)),
                  Kfree (kstack (ptable st ! i))],
               state_writes := state_writes st @ [(i, UNUSED, True)]\<rparr>))) \<and>
   ((\<forall>j < length (ptable st).
       \<not> (parent (ptable st ! j) = Some cur \<and> is_thread (ptable st ! j) \<noteq> 0)) \<longrightarrow>
      join cpok env sp cur st = Returned (- 1) (st\<lparr>locked := False\<rparr>)) \<and>
   (\<forall>st'. final_state (join_body cpok sp cur st) = Some st' \<longrightarrow>
      freevm_calls (calls st') = freevm_calls (calls st))"
proof (intro conjI impI allI)
  assume "\<forall>j < length (ptable st).
       \<not> (parent (ptable st ! j) = Some cur \<and> is_thread (ptable st ! j) \<noteq> 0)"
  then have "join_scan cpok sp cur [0..<length (ptable (acquire st))] False (acquire st) =
      (Inr False, acquire st)"
    by (subst join_scan_miss) auto
  then show "join cpok env sp cur st = Returned (- 1) (st\<lparr>locked := False\<rparr>)"
    by (simp add: join_def join_body_def release_def acquire_def)
next
  fix st'
  assume "final_state (join_body cpok sp cur st) = Some st'"
  then show "freevm_calls (calls st') = freevm_calls (calls st)"
    by (rule join_body_freevm)
next
  assume h: "i < length (ptable st) \<and>
    parent (ptable st ! i) = Some cur \<and> is_thread (ptable st ! i) \<noteq> 0 \<and>
    state (ptable st ! i) = ZOMBIE \<and>
    (\<forall>j < i. \<not> (parent (ptable st ! j) = Some cur \<and> is_thread (ptable st ! j) \<noteq> 0
       \<and> state (ptable st ! j) = ZOMBIE))"
  note scan = join_scan_first [of i "acquire st" cur cpok sp]
  {
    assume "\<not> cpok (pgdir (ptable st ! cur)) sp"
    with h scan show "join cpok env sp cur st = Returned (- 2) (st\<lparr>locked := False\<rparr>)"
      by (simp add: join_def join_body_def acquire_def)
  next
    assume "cpok (pgdir (ptable st ! cur)) sp"
    with h scan show "join cpok env sp cur st =
           Returned (pid (ptable st ! i))
            (st\<lparr>ptable := (ptable st)[i := (ptable st ! i)\<lparr>kstack := 0, state := UNUSED,
                   pid := 0, parent := None, killed := 0, name := [], is_thread := 0,
                   user_stack := 0\<rparr>],
               locked := False,
               calls := calls st @
                 [Copyout (pgdir (ptable st ! cur)) sp (user_stack (ptable st ! i)),
                  Kfree (kstack (ptable st ! i))],
               state_writes := state_writes st @ [(i, UNUSED, True)]\<rparr>)"
      by (simp add: join_def join_body_def acquire_def)
  }
qed

lemma family_sel:
  "length (ptable family) = 5" "calls family = []" "state_writes family = []"
  "ptable family ! Suc 0 = slot0\<lparr>state := RUNNING, pid := 2, parent := Some 0, sz := 0x3000, pgdir := 0x7000\<rparr>"
  "ptable family ! 3 = slot0\<lparr>state := ZOMBIE, pid := 4, parent := Some 1, sz := 0x3000,
      pgdir := 0x7000, is_thread := 1, user_stack := 0x2000, kstack := 0x9000\<rparr>"
  "ptable family ! 4 = slot0\<lparr>state := ZOMBIE, pid := 5, parent := Some 1, sz := 0x3000,
      pgdir := 0x6000, kstack := 0xA000, name := ''ls''\<rparr>"
  by (simp_all add: family_def kstate0_def)

lemma family_first_zombie_thread:
  "3 < length (ptable family) \<and>
    parent (ptable family ! 3) = Some 1 \<and> is_thread (ptable family ! 3) \<noteq> 0 \<and>
    state (ptable family ! 3) = ZOMBIE \<and>
    (\<forall>j < 3. \<not> (parent (ptable family ! j) = Some 1 \<and> is_thread (ptable family ! j) \<noteq> 0
       \<and> state (ptable family ! j) = ZOMBIE))"
  by (simp add: family_def kstate0_def less_Suc_eq numeral_3_eq_3)

theorem join_copyout_first_witness:
  "join (\<lambda>pd va. False) [] 0x2F00 1 family = Returned (- 2) (family\<lparr>locked := False\<rparr>) \<and>
   join (\<lambda>pd va. True) [] 0x2F00 1 family =
     Returned 4
       (family\<lparr>ptable := (ptable family)[3 := slot0\<lparr>sz := 0x3000, pgdir := 0x7000, kstack := 0,
             state := UNUSED, pid := 0, parent := None, killed := 0, name := [],
             is_thread := 0, user_stack := 0\<rparr>],
          locked := False, calls := [Copyout 0x7000 0x2F00 0x2000, Kfree 0x9000],
          state_writes := [(3, UNUSED, True)]\<rparr>)"
  using join_copyout_first [of 3 family 1 "\<lambda>pd va. False" "0x2F00" "[]"]
    join_copyout_first [of 3 family 1 "\<lambda>pd va. True" "0x2F00" "[]"]
    family_first_zombie_thread
  by (simp add: family_sel)

subsection \<open>check_and_free_shared_pgdir and wait\<close>








lemma wait_scan_skip:
  "\<forall>j \<in> set js. \<not> (parent (ptable st ! j) = Some cur \<and> is_thread (ptable st ! j) = 0
      \<and> state (ptable st ! j) = ZOMBIE) \<Longrightarrow>
   wait_scan cur (js @ rest) hk st =
     wait_scan cur rest
       (hk \<or> (\<exists>j \<in> set js. parent (ptable st ! j) = Some cur \<and> is_thread (ptable st ! j) = 0)) st"
  by (induction js arbitrary: hk) (auto simp: Let_def)

lemma wait_scan_miss:
  "\<forall>j \<in> set js. \<not> (parent (ptable st ! j) = Some cur \<and> is_thread (ptable st ! j) = 0
      \<and> state (ptable st ! j) = ZOMBIE) \<Longrightarrow>
   wait_scan cur js hk st =
     (Inr (hk \<or> (\<exists>j \<in> set js. parent (ptable st ! j) = Some cur \<and> is_thread (ptable st ! j) = 0)), st)"
  using wait_scan_skip [of js st cur "[]" hk] by simp




lemma wait_none:
  assumes "\<forall>j < length (ptable st). \<not> (parent (ptable st ! j) = Some cur
      \<and> is_thread (ptable st ! j) = 0 \<and> state (ptable st ! j) = ZOMBIE)"
  shows "wait_body cur (acquire st) =
     (if (\<forall>j < length (ptable st). \<not> (parent (ptable st ! j) = Some cur
            \<and> is_thread (ptable st ! j) = 0)) \<or> killed (ptable st ! cur) \<noteq> 0
      then Returned (- 1) (st\<lparr>locked := False\<rparr>)
      else sleep cur (Some (ProcChan cur)) True (acquire st))"
proof -
  have "wait_scan cur [0..<length (ptable (acquire st))] False (acquire st) =
     (Inr (False \<or> (\<exists>j \<in> set [0..<length (ptable (acquire st))].
         parent (ptable (acquire st) ! j) = Some cur \<and> is_thread (ptable (acquire st) ! j) = 0)),
      acquire st)"
    by (rule wait_scan_miss) (use assms in simp)
  then show ?thesis
    by (auto simp: wait_body_def release_def acquire_def)
qed

lemma sleep_ptable_lock:
  assumes "cur < length (ptable st)"
  shows "sleep cur c True (acquire st) =
    Suspended (st\<lparr>ptable := (ptable st)[cur := (ptable st ! cur)\<lparr>chan := c, state := SLEEPING\<rparr>],
      locked := True, state_writes := state_writes st @ [(cur, SLEEPING, True)]\<rparr>)"
  using assms
  by (cases "ptable st ! cur"; cases st)
     (simp add: sleep_def sched_def Let_def acquire_def set_state_def upd_proc_def)











text \<open>
  A caller without children and an \<open>UNUSED\<close> slot that names it as parent: in \<open>busy2\<close>
  \<open>wait\<close> returns -1 to slot 1; after the failed clone of slot 1, which leaves \<open>parent\<close> in
  the slot it frees, \<open>wait\<close> puts slot 1 to sleep.
\<close>

lemma wait_stale_parent:
  "wait [] 1 busy2 = Returned (- 1) (busy2\<lparr>locked := False\<rparr>) \<and>
   map (\<lambda>p. (parent p, is_thread p, state p)) (ptable failed_clone) =
     [(None, 0, SLEEPING), (Some 0, 0, RUNNING), (Some 1, 0, UNUSED), (None, 0, UNUSED)] \<and>
   ret_val (wait [] 1 failed_clone) = None \<and>
   map_option (\<lambda>st. state (ptable st ! 1)) (final_state (wait [] 1 failed_clone)) = Some SLEEPING"
proof -
  have z: "\<forall>j < length (ptable busy2). \<not> (parent (ptable busy2 ! j) = Some 1
      \<and> is_thread (ptable busy2 ! j) = 0 \<and> state (ptable busy2 ! j) = ZOMBIE)"
    "\<forall>j < length (ptable busy2). \<not> (parent (ptable busy2 ! j) = Some 1
      \<and> is_thread (ptable busy2 ! j) = 0)"
    by (simp_all add: busy2_def kstate0_def less_Suc_eq numeral_eq_Suc)
  have a: "wait [] 1 busy2 = Returned (- 1) (busy2\<lparr>locked := False\<rparr>)"
    using wait_none [OF z(1)] z(2) by (simp add: wait_def)
  have b: "map (\<lambda>p. (parent p, is_thread p, state p)) (ptable failed_clone) =
     [(None, 0, SLEEPING), (Some 0, 0, RUNNING), (Some 1, 0, UNUSED), (None, 0, UNUSED)]"
    by (subst list4 [of "ptable failed_clone"]) (simp_all add: failed_clone_sel)
  have len: "length (ptable failed_clone) = 4" by (simp add: failed_clone_sel)
  have f: "\<forall>j < length (ptable failed_clone). \<not> (parent (ptable failed_clone ! j) = Some 1
      \<and> is_thread (ptable failed_clone ! j) = 0 \<and> state (ptable failed_clone ! j) = ZOMBIE)"
    unfolding len by (simp add: less_Suc_eq numeral_eq_Suc) (simp add: failed_clone_sel numeral_2_eq_2 [symmetric] numeral_3_eq_3 [symmetric])
  have g: "\<not> (\<forall>j < length (ptable failed_clone). \<not> (parent (ptable failed_clone ! j) = Some 1
      \<and> is_thread (ptable failed_clone ! j) = 0))"
    using failed_clone_sel(4) len by (auto intro!: exI [of _ 2])
  have k: "killed (ptable failed_clone ! 1) = 0" "1 < length (ptable failed_clone)"
    by (simp_all add: failed_clone_sel)
  have "wait_body 1 (acquire failed_clone) = sleep 1 (Some (ProcChan 1)) True (acquire failed_clone)"
    using g k by (subst wait_none [OF f]) auto
  then have "wait_body 1 (acquire failed_clone) =
      Suspended (failed_clone\<lparr>ptable := (ptable failed_clone)[1 := (ptable failed_clone ! 1)\<lparr>chan := Some (ProcChan 1), state := SLEEPING\<rparr>],
      locked := True, state_writes := state_writes failed_clone @ [(1, SLEEPING, True)]\<rparr>)"
    using sleep_ptable_lock [OF k(2)] by simp
  then have c: "wait [] 1 failed_clone =
      Suspended (failed_clone\<lparr>ptable := (ptable failed_clone)[1 := (ptable failed_clone ! 1)\<lparr>chan := Some (ProcChan 1), state := SLEEPING\<rparr>],
      locked := True, state_writes := state_writes failed_clone @ [(1, SLEEPING, True)]\<rparr>)"
    by (simp add: wait_def)
  have d: "ret_val (wait [] 1 failed_clone) = None"
    "map_option (\<lambda>st. state (ptable st ! 1)) (final_state (wait [] 1 failed_clone)) = Some SLEEPING"
    unfolding c by (simp_all add: len)
  show ?thesis
    using a b d by (intro conjI)
qed

subsection \<open>exit\<close>
















subsection \<open>Teardown of a shared address space\<close>








subsection \<open>The ticket lock\<close>

lemma of_nat_window:
  assumes "(of_nat n :: u32) = of_nat r" "r \<le> n" "n < r + 2 ^ 32"
  shows "n = r"
proof -
  from assms(1) have "unat (of_nat n :: u32) = unat (of_nat r :: u32)" by simp
  then have "n mod 2 ^ 32 = r mod 2 ^ 32"
    by (simp add: unat_of_nat)
  with assms(2) have "(2 ^ 32 :: nat) dvd n - r"
    by (simp add: mod_eq_dvd_iff_nat)
  moreover have "n - r < 2 ^ 32" using assms by simp
  ultimately have "n - r = 0"
    by (meson dvd_imp_le not_less zero_less_iff_neq_zero)
  with assms(2) show ?thesis by simp
qed

lemma lstep_thr_length [simp]: "length (thr (lstep i s)) = length (thr s)"
  by (simp add: lstep_def acquire_xadd_def xadd_def split: tstate.splits)

lemma linv_init: "linv (linit K)"
  by (simp add: linv_def linit_def ticket_lock_init_def)


lemma linv_draw:
  assumes inv: "linv s" and i: "i < length (thr s)" and idle: "thr s ! i = Idle"
  shows "linv (lstep i s)"
proof -
  let ?I = "length (issued s)"
  have step: "lstep i s = s\<lparr>lk := (lk s)\<lparr>ticket := ticket (lk s) + 1\<rparr>,
      thr := (thr s)[i := Spinning (ticket (lk s))], issued := issued s @ [i]\<rparr>"
    using i idle by (simp add: lstep_def acquire_xadd_def xadd_def)
  have cnt: "length (filter (\<lambda>t. t \<noteq> Idle) ((thr s)[i := Spinning w])) =
      Suc (length (filter (\<lambda>t. t \<noteq> Idle) (thr s)))" for w
    using length_filter_update [OF i, of "\<lambda>t. t \<noteq> Idle" "Spinning w"] idle by simp
  have cnt2: "length (filter (\<lambda>t. t = Holding) ((thr s)[i := Spinning w])) =
      length (filter (\<lambda>t. t = Holding) (thr s))" for w
    using length_filter_update [OF i, of "\<lambda>t. t = Holding" "Spinning w"] idle by simp
  have EI: "length (entered s) \<le> ?I" and RE: "released s < ?I \<or> length (entered s) = released s"
    using inv by (auto simp: linv_def)
  {
    fix j t assume j: "j < length (thr s)"
      and sp: "(thr s)[i := Spinning (ticket (lk s))] ! j = Spinning t"
    have "\<exists>n. length (entered s) \<le> n \<and> n < Suc ?I \<and> (issued s @ [i]) ! n = j \<and> t = of_nat n"
    proof (cases "j = i")
      case True
      with sp i have "t = ticket (lk s)" by simp
      with inv have "t = of_nat ?I" by (simp add: linv_def)
      with True EI show ?thesis by (intro exI [of _ ?I]) simp
    next
      case False
      with sp have "thr s ! j = Spinning t" by simp
      with inv j obtain n where "length (entered s) \<le> n" "n < ?I" "issued s ! n = j" "t = of_nat n"
        unfolding linv_def by blast
      then show ?thesis by (intro exI [of _ n]) (simp add: nth_append)
    qed
  }
  moreover {
    fix j assume j: "j < length (thr s)"
      and ho: "(thr s)[i := Spinning (ticket (lk s))] ! j = Holding"
    then have "j \<noteq> i" using i by auto
    with ho have "thr s ! j = Holding" by simp
    with inv j have "length (entered s) = released s + 1" "issued s ! released s = j"
      unfolding linv_def by blast+
    moreover from this EI have "released s < ?I" by simp
    ultimately have "length (entered s) = released s + 1 \<and> (issued s @ [i]) ! released s = j"
      by (simp add: nth_append)
  }
  ultimately show ?thesis
    using inv unfolding step by (simp add: linv_def cnt cnt2)
qed

lemma linv_spin:
  assumes inv: "linv s" and i: "i < length (thr s)" and sp: "thr s ! i = Spinning t"
    and ne: "turn (lk s) \<noteq> t"
  shows "lstep i s = s"
  using i sp ne by (simp add: lstep_def acquire_spins_def)

lemma linv_enter:
  assumes inv: "linv s" and K: "length (thr s) < 2 ^ 32"
    and i: "i < length (thr s)" and sp: "thr s ! i = Spinning t" and eq: "turn (lk s) = t"
  shows "linv (lstep i s) \<and> length (entered s) = released s \<and> issued s ! released s = i"
proof -
  let ?I = "length (issued s)" and ?E = "length (entered s)" and ?R = "released s"
  have step: "lstep i s = s\<lparr>thr := (thr s)[i := Holding], entered := entered s @ [i]\<rparr>"
    using i sp eq by (simp add: lstep_def acquire_spins_def)
  from inv i sp obtain n where n: "?E \<le> n" "n < ?I" "issued s ! n = i" "t = of_nat n"
    unfolding linv_def by blast
  have bnd: "?I = ?R + length (filter (\<lambda>t. t \<noteq> Idle) (thr s))" "?R \<le> ?E"
    and pre: "entered s = take ?E (issued s)"
    and i1: "ticket (lk s) = of_nat ?I" and tR: "turn (lk s) = of_nat ?R"
    using inv by (simp_all add: linv_def)
  define M :: nat where "M = 2 ^ 32"
  have c: "length (filter (\<lambda>t. t \<noteq> Idle) (thr s)) \<le> length (thr s)"
    by (rule length_filter_le)
  have "length (thr s) < M" using K by (simp add: M_def)
  with c bnd(1) n(2) have "n < ?R + M" by linarith
  then have w: "n < ?R + 2 ^ 32" by (simp only: M_def)
  have "(of_nat n :: u32) = of_nat ?R"
    using eq n(4) tR by simp
  moreover have "?R \<le> n" using bnd(2) n(1) by simp
  ultimately have nR: "n = ?R" using w by (rule of_nat_window)
  with n bnd have ER: "?E = ?R" by simp
  have own: "issued s ! ?E = i" using n(3) nR ER by simp
  have EI: "?E < ?I" using n(2) nR ER by simp
  have nohold: "thr s ! j \<noteq> Holding" if "j < length (thr s)" for j
    using inv that ER unfolding linv_def by auto
  have cnt: "length (filter (\<lambda>t. t \<noteq> Idle) ((thr s)[i := Holding])) =
      length (filter (\<lambda>t. t \<noteq> Idle) (thr s))"
    using length_filter_update [OF i, of "\<lambda>t. t \<noteq> Idle" Holding] sp by simp
  have cnt2: "length (filter (\<lambda>t. t = Holding) ((thr s)[i := Holding])) =
      Suc (length (filter (\<lambda>t. t = Holding) (thr s)))"
    using length_filter_update [OF i, of "\<lambda>t. t = Holding" Holding] sp by simp
  have eh: "?R + length (filter (\<lambda>t. t = Holding) (thr s)) = ?E"
    using inv by (simp add: linv_def)
  have ent: "entered s @ [i] = take (Suc ?E) (issued s)"
    using pre own EI by (simp add: take_Suc_conv_app_nth)
  have spin: "\<exists>m. Suc ?E \<le> m \<and> m < ?I \<and> issued s ! m = j \<and> t' = of_nat m"
    if j: "j < length (thr s)" and sj: "(thr s)[i := Holding] ! j = Spinning t'" for j t'
  proof -
    from j sj have ji: "j \<noteq> i" using i by auto
    with sj have "thr s ! j = Spinning t'" by simp
    with inv j obtain m where m: "?E \<le> m" "m < ?I" "issued s ! m = j" "t' = of_nat m"
      unfolding linv_def by blast
    with ji own have "m \<noteq> ?E" by auto
    with m show ?thesis by (intro exI [of _ m]) simp
  qed
  have hold: "j = i"
    if j: "j < length (thr s)" and hj: "(thr s)[i := Holding] ! j = Holding" for j
  proof (rule ccontr)
    assume "j \<noteq> i"
    with hj have "thr s ! j = Holding" by simp
    with nohold [OF j] show False by simp
  qed
  have "linv (s\<lparr>thr := (thr s)[i := Holding], entered := entered s @ [i]\<rparr>)"
    unfolding linv_def
  proof (intro conjI allI impI)
    show "ticket (lk (s\<lparr>thr := (thr s)[i := Holding], entered := entered s @ [i]\<rparr>)) =
        of_nat (length (issued (s\<lparr>thr := (thr s)[i := Holding], entered := entered s @ [i]\<rparr>)))"
      using i1 by simp
    show "turn (lk (s\<lparr>thr := (thr s)[i := Holding], entered := entered s @ [i]\<rparr>)) =
        of_nat (released (s\<lparr>thr := (thr s)[i := Holding], entered := entered s @ [i]\<rparr>))"
      using tR by simp
    show "entered (s\<lparr>thr := (thr s)[i := Holding], entered := entered s @ [i]\<rparr>) =
        take (length (entered (s\<lparr>thr := (thr s)[i := Holding], entered := entered s @ [i]\<rparr>)))
          (issued (s\<lparr>thr := (thr s)[i := Holding], entered := entered s @ [i]\<rparr>))"
      using ent EI by (simp add: min_def)
    show "released (s\<lparr>thr := (thr s)[i := Holding], entered := entered s @ [i]\<rparr>)
        \<le> length (entered (s\<lparr>thr := (thr s)[i := Holding], entered := entered s @ [i]\<rparr>))"
      using ER by simp
    show "length (entered (s\<lparr>thr := (thr s)[i := Holding], entered := entered s @ [i]\<rparr>))
        \<le> released (s\<lparr>thr := (thr s)[i := Holding], entered := entered s @ [i]\<rparr>) + 1"
      using ER by simp
    show "length (entered (s\<lparr>thr := (thr s)[i := Holding], entered := entered s @ [i]\<rparr>))
        \<le> length (issued (s\<lparr>thr := (thr s)[i := Holding], entered := entered s @ [i]\<rparr>))"
      using EI by simp
    show "length (issued (s\<lparr>thr := (thr s)[i := Holding], entered := entered s @ [i]\<rparr>)) =
        released (s\<lparr>thr := (thr s)[i := Holding], entered := entered s @ [i]\<rparr>) +
        length (filter (\<lambda>t. t \<noteq> Idle) (thr (s\<lparr>thr := (thr s)[i := Holding], entered := entered s @ [i]\<rparr>)))"
      using bnd(1) cnt by simp
    show "released (s\<lparr>thr := (thr s)[i := Holding], entered := entered s @ [i]\<rparr>) +
        length (filter (\<lambda>t. t = Holding) (thr (s\<lparr>thr := (thr s)[i := Holding], entered := entered s @ [i]\<rparr>)))
        = length (entered (s\<lparr>thr := (thr s)[i := Holding], entered := entered s @ [i]\<rparr>))"
      using eh cnt2 by simp
  next
    fix j t'
    assume "j < length (thr (s\<lparr>thr := (thr s)[i := Holding], entered := entered s @ [i]\<rparr>))"
      "thr (s\<lparr>thr := (thr s)[i := Holding], entered := entered s @ [i]\<rparr>) ! j = Spinning t'"
    then have "j < length (thr s)" "(thr s)[i := Holding] ! j = Spinning t'" by simp_all
    from spin [OF this]
    show "\<exists>n. length (entered (s\<lparr>thr := (thr s)[i := Holding], entered := entered s @ [i]\<rparr>)) \<le> n \<and>
        n < length (issued (s\<lparr>thr := (thr s)[i := Holding], entered := entered s @ [i]\<rparr>)) \<and>
        issued (s\<lparr>thr := (thr s)[i := Holding], entered := entered s @ [i]\<rparr>) ! n = j \<and>
        t' = of_nat n"
      by simp
  next
    fix j
    assume "j < length (thr (s\<lparr>thr := (thr s)[i := Holding], entered := entered s @ [i]\<rparr>))"
      "thr (s\<lparr>thr := (thr s)[i := Holding], entered := entered s @ [i]\<rparr>) ! j = Holding"
    then have "j < length (thr s)" "(thr s)[i := Holding] ! j = Holding" by simp_all
    from hold [OF this] have ji: "j = i" .
    show "length (entered (s\<lparr>thr := (thr s)[i := Holding], entered := entered s @ [i]\<rparr>)) =
        released (s\<lparr>thr := (thr s)[i := Holding], entered := entered s @ [i]\<rparr>) + 1"
      using ER by simp
    show "issued (s\<lparr>thr := (thr s)[i := Holding], entered := entered s @ [i]\<rparr>) !
        released (s\<lparr>thr := (thr s)[i := Holding], entered := entered s @ [i]\<rparr>) = j"
      using own ER ji by simp
  qed
  then have "linv (lstep i s)" by (simp only: step)
  with ER own show ?thesis by simp
qed

lemma linv_release:
  assumes inv: "linv s" and i: "i < length (thr s)" and ho: "thr s ! i = Holding"
  shows "linv (lstep i s)"
proof -
  let ?I = "length (issued s)" and ?E = "length (entered s)" and ?R = "released s"
  have step: "lstep i s = s\<lparr>lk := (lk s)\<lparr>turn := turn (lk s) + 1\<rparr>,
      thr := (thr s)[i := Idle], released := ?R + 1\<rparr>"
    using i ho by (simp add: lstep_def ticket_lock_release_def xadd_def)
  from inv i ho have ER: "?E = ?R + 1" and own: "issued s ! ?R = i"
    unfolding linv_def by blast+
  have cnt: "Suc (length (filter (\<lambda>t. t \<noteq> Idle) ((thr s)[i := Idle]))) =
      length (filter (\<lambda>t. t \<noteq> Idle) (thr s))"
    using length_filter_update [OF i, of "\<lambda>t. t \<noteq> Idle" Idle] ho by simp
  have cnt2: "Suc (length (filter (\<lambda>t. t = Holding) ((thr s)[i := Idle]))) =
      length (filter (\<lambda>t. t = Holding) (thr s))"
    using length_filter_update [OF i, of "\<lambda>t. t = Holding" Idle] ho by simp
  {
    fix j t' assume j: "j < length (thr s)" and sj: "(thr s)[i := Idle] ! j = Spinning t'"
    then have "j \<noteq> i" using i by auto
    with sj have "thr s ! j = Spinning t'" by simp
    with inv j have "\<exists>m. ?E \<le> m \<and> m < ?I \<and> issued s ! m = j \<and> t' = of_nat m"
      unfolding linv_def by blast
  }
  moreover {
    fix j assume j: "j < length (thr s)" and hj: "(thr s)[i := Idle] ! j = Holding"
    then have ji: "j \<noteq> i" using i by auto
    with hj have "thr s ! j = Holding" by simp
    with inv j have "issued s ! ?R = j" unfolding linv_def by blast
    with own ji have False by simp
  }
  ultimately show ?thesis
    using inv ER cnt cnt2 unfolding step by (auto simp: linv_def)
qed

lemma linv_step:
  assumes "linv s" "length (thr s) < 2 ^ 32"
  shows "linv (lstep i s)"
proof (cases "i < length (thr s)")
  case False
  with assms show ?thesis by (simp add: lstep_def)
next
  case True
  show ?thesis
  proof (cases "thr s ! i")
    case Idle
    with assms True show ?thesis by (intro linv_draw)
  next
    case (Spinning t)
    show ?thesis
    proof (cases "turn (lk s) = t")
      case True
      with assms \<open>i < length (thr s)\<close> Spinning show ?thesis using linv_enter by blast
    next
      case False
      with assms \<open>i < length (thr s)\<close> Spinning show ?thesis by (simp add: linv_spin)
    qed
  next
    case Holding
    with assms True show ?thesis by (intro linv_release)
  qed
qed

lemma linv_run:
  "linv s \<Longrightarrow> length (thr s) < 2 ^ 32 \<Longrightarrow> linv (lrun sch s) \<and> length (thr (lrun sch s)) = length (thr s)"
  unfolding lrun_def
  by (induction sch arbitrary: s) (simp_all add: linv_step)

text \<open>
  C8. The \<open>xadd\<close> of \<open>ticket_lock_acquire\<close> returns the ticket counter and increments
  it; the loop of acquire goes on exactly while the turn counter differs from the
  returned ticket; \<open>ticket_lock_release\<close> increments the turn counter. For fewer than
  \<open>2 ^ 32\<close> threads and every schedule of their atomic steps from the initial lock:
  acquires complete in the order in which the tickets were drawn (when the first \<open>m\<close>
  tickets went to \<open>m\<close> different threads, so did the first \<open>m\<close> acquires); at most one
  thread is between acquire and release; the completed acquires are the releases plus
  the threads now holding the lock, so that when every thread is idle the numbers of
  acquires, of tickets and of releases are equal, and so are the two counters.
\<close>

theorem ticket_lock_fifo:
  "fst (acquire_xadd l) = ticket l \<and> snd (acquire_xadd l) = l\<lparr>ticket := ticket l + 1\<rparr> \<and>
   (acquire_spins l t \<longleftrightarrow> turn l \<noteq> t) \<and>
   ticket_lock_release l = l\<lparr>turn := turn l + 1\<rparr> \<and>
   (K < 2 ^ 32 \<longrightarrow>
     (let s = lrun schedule (linit K) in
        entered s = take (length (entered s)) (issued s) \<and>
        (\<forall>m. distinct (take m (issued s)) \<longrightarrow> distinct (take m (entered s))) \<and>
        (\<forall>i < K. \<forall>j < K. thr s ! i = Holding \<and> thr s ! j = Holding \<longrightarrow> i = j) \<and>
        length (entered s) = released s + length (filter (\<lambda>t. t = Holding) (thr s)) \<and>
        ((\<forall>i < K. thr s ! i = Idle) \<longrightarrow>
           length (entered s) = released s \<and> length (issued s) = released s \<and>
           ticket (lk s) = turn (lk s))))"
proof (intro conjI impI)
  show "fst (acquire_xadd l) = ticket l" "snd (acquire_xadd l) = l\<lparr>ticket := ticket l + 1\<rparr>"
    by (simp_all add: acquire_xadd_def xadd_def)
  show "acquire_spins l t \<longleftrightarrow> turn l \<noteq> t"
    by (simp add: acquire_spins_def)
  show "ticket_lock_release l = l\<lparr>turn := turn l + 1\<rparr>"
    by (simp add: ticket_lock_release_def xadd_def)
  assume K: "K < 2 ^ 32"
  define s where "s = lrun schedule (linit K)"
  have len0: "length (thr (linit K)) = K" by (simp add: linit_def)
  have "linv s \<and> length (thr s) = length (thr (linit K))"
    unfolding s_def using K by (intro linv_run linv_init) (simp add: len0)
  then have inv: "linv s" and len: "length (thr s) = K" by (simp_all add: len0)
  have pre: "entered s = take (length (entered s)) (issued s)"
    and cntI: "length (issued s) = released s + length (filter (\<lambda>t. t \<noteq> Idle) (thr s))"
    and cntE: "released s + length (filter (\<lambda>t. t = Holding) (thr s)) = length (entered s)"
    and tk: "ticket (lk s) = of_nat (length (issued s))" "turn (lk s) = of_nat (released s)"
    using inv by (simp_all add: linv_def)
  have fifo: "distinct (take m (entered s))" if "distinct (take m (issued s))" for m
  proof -
    have "take m (entered s) = take (min m (length (entered s))) (take m (issued s))"
      by (subst pre) (simp add: min.commute)
    with that show ?thesis by (metis distinct_take)
  qed
  have mutex: "i = j" if "i < K" "j < K" "thr s ! i = Holding \<and> thr s ! j = Holding" for i j
  proof -
    have "\<forall>i < length (thr s). thr s ! i = Holding \<longrightarrow>
        length (entered s) = released s + 1 \<and> issued s ! released s = i"
      using inv unfolding linv_def by blast
    with that len have "issued s ! released s = i" "issued s ! released s = j"
      by blast+
    then show ?thesis by simp
  qed
  have quiet: "length (entered s) = released s \<and> length (issued s) = released s \<and>
           ticket (lk s) = turn (lk s)" if "\<forall>i < K. thr s ! i = Idle"
  proof -
    from that len have "\<forall>t \<in> set (thr s). t = Idle"
      by (auto simp: in_set_conv_nth)
    then have "filter (\<lambda>t. t \<noteq> Idle) (thr s) = []" "filter (\<lambda>t. t = Holding) (thr s) = []"
      by (auto simp: filter_empty_conv)
    with cntI cntE tk show ?thesis by simp
  qed
  show "let s = lrun schedule (linit K) in
        entered s = take (length (entered s)) (issued s) \<and>
        (\<forall>m. distinct (take m (issued s)) \<longrightarrow> distinct (take m (entered s))) \<and>
        (\<forall>i < K. \<forall>j < K. thr s ! i = Holding \<and> thr s ! j = Holding \<longrightarrow> i = j) \<and>
        length (entered s) = released s + length (filter (\<lambda>t. t = Holding) (thr s)) \<and>
        ((\<forall>i < K. thr s ! i = Idle) \<longrightarrow>
           length (entered s) = released s \<and> length (issued s) = released s \<and>
           ticket (lk s) = turn (lk s))"
    unfolding Let_def s_def [symmetric]
  proof (intro conjI allI impI)
    show "entered s = take (length (entered s)) (issued s)" by (rule pre)
    show "distinct (take m (entered s))" if "distinct (take m (issued s))" for m
      using that by (rule fifo)
    show "i = j" if "i < K" "j < K" "thr s ! i = Holding \<and> thr s ! j = Holding" for i j
      using that by (rule mutex)
    show "length (entered s) = released s + length (filter (\<lambda>t. t = Holding) (thr s))"
      using cntE by simp
    show "length (entered s) = released s" "length (issued s) = released s"
      "ticket (lk s) = turn (lk s)" if "\<forall>i < K. thr s ! i = Idle"
      using quiet [OF that] by simp_all
  qed
qed

lemma run1: "lrun [0, 1, 0, 1, 0, 1, 1] (linit 2) =
    \<lparr>lk = \<lparr>ticket = 2, turn = 2\<rparr>, thr = [Idle, Idle], issued = [0, 1], entered = [0, 1],
     released = 2\<rparr>"
  by (simp add: lrun_def linit_def lstep_def ticket_lock_init_def acquire_xadd_def xadd_def
      acquire_spins_def ticket_lock_release_def numeral_2_eq_2)

lemma run2: "lrun [1, 0, 1, 0] (linit 2) =
    \<lparr>lk = \<lparr>ticket = 2, turn = 0\<rparr>, thr = [Spinning 1, Holding], issued = [1, 0], entered = [1],
     released = 0\<rparr>"
  by (simp add: lrun_def linit_def lstep_def ticket_lock_init_def acquire_xadd_def xadd_def
      acquire_spins_def ticket_lock_release_def numeral_2_eq_2)

theorem ticket_lock_fifo_witness:
  "(let s = lrun [0, 1, 0, 1, 0, 1, 1] (linit 2) in
      issued s = [0, 1] \<and> entered s = [0, 1] \<and> released s = 2 \<and> thr s = [Idle, Idle] \<and>
      ticket (lk s) = 2 \<and> turn (lk s) = 2) \<and>
   (let s = lrun [1, 0, 1, 0] (linit 2) in
      issued s = [1, 0] \<and> entered s = [1] \<and> released s = 0 \<and> thr s = [Spinning 1, Holding])"
  using ticket_lock_fifo [of "\<lparr>ticket = 0, turn = 0\<rparr>" 0 2 "[0, 1, 0, 1, 0, 1, 1]"]
    ticket_lock_fifo [of "\<lparr>ticket = 0, turn = 0\<rparr>" 0 2 "[1, 0, 1, 0]"]
  unfolding run1 run2 by (simp add: Let_def)

end
